theory Spec2Isabelle
  imports Main "HOL-Library.AList"
begin

section \<open>Data model\<close>

text \<open>
  The bot keeps three global dictionaries: \<open>user_stats\<close> (player id to record),
  \<open>lobbies\<close> and \<open>games\<close> (chat id to lobby or match). Python dictionaries keep
  insertion order and the forfeit handler iterates over \<open>games\<close>, so each dictionary is
  an association list: \<open>map_of d k\<close> is \<open>d.get(k)\<close>, \<open>AList.update k v d\<close> is
  \<open>d[k] = v\<close> (in place for an existing key, appended for a new one) and
  \<open>AList.delete k d\<close> is \<open>d.pop(k, None)\<close>.

  Player ids are Telegram integers; the source keys its dictionaries by \<open>str(id)\<close>,
  which is injective, so the model keys them by the integer itself. Chat ids are the
  strings the source makes of them.
\<close>

type_synonym uid = int
type_synonym gid = string

text \<open>
  The \<open>"name"\<close> entry of a record is absent (a record made by \<open>setdefault(uid, {})\<close>),
  \<open>None\<close> (a record made by \<open>ensure_user\<close>) or a string. The counters are read with
  \<open>.get(k, 0)\<close> or after \<open>setdefault(k, 0)\<close> everywhere, so an absent counter and a
  counter of 0 behave alike and the model stores the number.
\<close>

datatype pyname = Missing | PyNone | Name string

record stats =
  name :: pyname
  wins :: int
  losses :: int
  draws :: int
  specials_used :: int
  specials_successful :: int

text \<open>
  A match (lines 295--304). The per-player dictionaries are created with exactly the
  two players as keys and are only ever read and written at a player's key; they are
  functions from the player id, with the value \<open>.get\<close> defaults to elsewhere. A move is
  the string of the callback; \<open>None\<close> is Python's \<open>None\<close>. The fields \<open>names\<close> and
  \<open>round_prompt_msg_ids\<close> only feed message texts and message deletion and are left
  out, as is the lobby's \<open>message_id\<close>.
\<close>

record game =
  players :: "uid \<times> uid"
  hp :: "uid \<Rightarrow> int"
  specials_left :: "uid \<Rightarrow> int"
  reversals_left :: "uid \<Rightarrow> int"
  last_move :: "uid \<Rightarrow> string option"
  move_choice :: "uid \<Rightarrow> string option"

record lobby =
  host :: uid
  lobby_players :: "uid list"

record state =
  user_stats :: "(uid \<times> stats) list"
  lobbies :: "(gid \<times> lobby) list"
  games :: "(gid \<times> game) list"

definition MAX_HP :: int where "MAX_HP = 200"
definition MAX_SPECIALS_PER_MATCH :: int where "MAX_SPECIALS_PER_MATCH = 4"
definition MAX_REVERSALS_PER_MATCH :: int where "MAX_REVERSALS_PER_MATCH = 3"
definition MAX_NAME_LENGTH :: nat where "MAX_NAME_LENGTH = 16"

definition MOVES :: "(string \<times> int) list" where
  "MOVES = [(''punch'', 5), (''kick'', 15), (''slam'', 25), (''dropkick'', 30),
            (''suplex'', 45), (''rko'', 55), (''reversal'', 0)]"

section \<open>What the bot sends\<close>

text \<open>
  Every call of the chat API is an entry of the handler's trace; the texts are reduced
  to which message it is and the values it carries. \<open>SaveStats\<close> is a call of
  \<open>save_stats_file\<close>. \<open>LogException\<close> is the \<open>except Exception\<close> of
  \<open>webhook_receiver\<close>: an exception ends the handler and keeps the mutations made so
  far.
\<close>

datatype target = ToUser uid | ToGroup gid

datatype block_reason = SpecialCooldown | NoSpecialsLeft | ReversalCooldown | NoReversalsLeft

datatype notice =
    NameEmpty | NameTooLong | NameTaken | Registered string | DmReply
  | MustRegister | MatchAlreadyActive | LobbyAlreadyOpen | LobbyOpened uid
  | NoActiveMatch | PlayersOnly | ConfirmEndPrompt | GroupHelp
  | LobbyGone | OnlyHostCancels | LobbyCancelled | YouCreatedLobby | MustRegisterJoin
  | Joining | MatchStart uid uid
  | NotInMatch | AlreadyChose | Blocked block_reason | RestrictionDM
  | BlockedAnnounce uid string | MoveRecorded
  | Reversed uid uid int | Strike uid "string option" int | NoDamage uid "string option"
  | HpLine uid int | Hype | DoubleKO | WinsByKO uid | NextRound
  | OnlyParticipants | EndedByPlayer uid uid | MatchEndedAck | MatchEndedEdit
  | EndCanceled | Forfeited uid uid | ForfeitEdit | NotInAMatch | ForfeitProcessed
  | ForfeitCanceled

datatype effect =
    Say target notice
  | Answer notice
  | Edit notice
  | Prompt gid "string list"
  | DeletePrompts gid
  | SaveStats
  | LogException

type_synonym result = "state \<times> effect list"

text \<open>Run \<open>f\<close> on the state a handler prefix left, and append its trace.\<close>

definition and_then :: "result \<Rightarrow> (state \<Rightarrow> result) \<Rightarrow> result" where
  "and_then r f = (case f (fst r) of (s', e') \<Rightarrow> (s', snd r @ e'))"

section \<open>Player registry\<close>

definition blank_stats :: stats where
  "blank_stats = \<lparr>name = PyNone, wins = 0, losses = 0, draws = 0,
                   specials_used = 0, specials_successful = 0\<rparr>"

definition empty_stats :: stats where
  "empty_stats = \<lparr>name = Missing, wins = 0, losses = 0, draws = 0,
                   specials_used = 0, specials_successful = 0\<rparr>"

text \<open>\<open>ensure_user\<close>, lines 260--263.\<close>

definition ensure_user :: "uid \<Rightarrow> state \<Rightarrow> result" where
  "ensure_user u s =
     (if map_of (user_stats s) u = None
      then (s\<lparr>user_stats := AList.update u blank_stats (user_stats s)\<rparr>, [SaveStats])
      else (s, []))"

text \<open>\<open>user_stats.setdefault(u, {})\<close>.\<close>

definition setdefault_user :: "uid \<Rightarrow> (uid \<times> stats) list \<Rightarrow> (uid \<times> stats) list" where
  "setdefault_user u us = (if map_of us u = None then AList.update u empty_stats us else us)"

text \<open>\<open>user_stats.get(u, {}).get("name")\<close> and its truth value.\<close>

definition get_name :: "(uid \<times> stats) list \<Rightarrow> uid \<Rightarrow> pyname" where
  "get_name us u = (case map_of us u of None \<Rightarrow> Missing | Some r \<Rightarrow> name r)"

fun truthy_name :: "pyname \<Rightarrow> bool" where
  "truthy_name (Name n) = (n \<noteq> [])"
| "truthy_name _ = False"

text \<open>
  A text is a list of code points below 256, one \<open>char\<close> each, so \<open>length\<close> is Python's
  \<open>len\<close>. On these code points \<open>str.lower\<close> works character by character and adds
  32 to the codes 65--90 (A--Z), 192--214 and 216--222 (the capital letters of Latin-1;
  215 is the multiplication sign), leaving all others, and \<open>str.isspace\<close> holds of the
  codes 9--13, 28--32, 133 and 160. \<open>str.strip\<close> removes the characters of
  \<open>str.isspace\<close> from both ends.
\<close>

definition lower_char :: "char \<Rightarrow> char" where
  "lower_char c =
     (let n = (of_char c :: nat)
      in if (65 \<le> n \<and> n \<le> 90) \<or> (192 \<le> n \<and> n \<le> 214) \<or> (216 \<le> n \<and> n \<le> 222)
         then char_of (n + 32) else c)"

definition lower :: "string \<Rightarrow> string" where
  "lower s = map lower_char s"

definition isspace :: "char \<Rightarrow> bool" where
  "isspace c =
     (let n = (of_char c :: nat)
      in (9 \<le> n \<and> n \<le> 13) \<or> (28 \<le> n \<and> n \<le> 32) \<or> n = 133 \<or> n = 160)"

definition strip :: "string \<Rightarrow> string" where
  "strip s = rev (dropWhile isspace (rev (dropWhile isspace s)))"

text \<open>The uniqueness check of line 507.\<close>

definition name_taken :: "(uid \<times> stats) list \<Rightarrow> uid \<Rightarrow> string \<Rightarrow> bool" where
  "name_taken us u nm =
     list_ex (\<lambda>(k, info). k \<noteq> u \<and> truthy_name (name info) \<and>
                (case name info of Name n \<Rightarrow> lower n = lower nm | _ \<Rightarrow> False)) us"

text \<open>Lines 499--517: the text of a direct message taken as the name to register.\<close>

definition register_name :: "uid \<Rightarrow> string \<Rightarrow> state \<Rightarrow> result" where
  "register_name u text s =
     (let nm = strip text in
      if nm = [] then (s, [Say (ToUser u) NameEmpty])
      else if length nm > MAX_NAME_LENGTH then (s, [Say (ToUser u) NameTooLong])
      else if name_taken (user_stats s) u nm then (s, [Say (ToUser u) NameTaken])
      else (s\<lparr>user_stats :=
                AList.map_entry u (\<lambda>r. r\<lparr>name := Name nm\<rparr>) (setdefault_user u (user_stats s))\<rparr>,
            [SaveStats, Say (ToUser u) (Registered nm)]))"

text \<open>
  The private-chat branch, lines 494--548. The commands of a direct message only
  answer; their replies are one notice.
\<close>

definition handle_private :: "uid \<Rightarrow> string \<Rightarrow> state \<Rightarrow> result" where
  "handle_private u text s =
     and_then (ensure_user u s) (\<lambda>s1.
       if \<not> truthy_name (get_name (user_stats s1) u) \<and> text \<noteq> [] \<and> hd text \<noteq> CHR ''/''
       then register_name u text s1
       else (s1, [Say (ToUser u) DmReply]))"

section \<open>Match engine\<close>

text \<open>\<open>damage_of\<close>, lines 339--340: an unknown move, or none, deals 0.\<close>

definition damage_of :: "string option \<Rightarrow> int" where
  "damage_of m =
     (case m of None \<Rightarrow> 0
      | Some n \<Rightarrow> (case map_of MOVES n of None \<Rightarrow> 0 | Some d \<Rightarrow> d))"

text \<open>The dictionary \<open>dmg_to\<close> of lines 342--348, keyed by the two players.\<close>

definition dmg_to :: "uid \<Rightarrow> uid \<Rightarrow> string option \<Rightarrow> string option \<Rightarrow> uid \<Rightarrow> int" where
  "dmg_to p1 p2 m1 m2 =
     (let d0 = (\<lambda>_. 0)(p1 := 0, p2 := 0);
          d1 = (if m1 = Some ''reversal'' \<and> m2 \<noteq> Some ''reversal''
                then d0(p2 := d0 p2 + damage_of m2) else d0);
          d2 = (if m2 = Some ''reversal'' \<and> m1 \<noteq> Some ''reversal''
                then d1(p1 := d1 p1 + damage_of m1) else d1);
          d3 = (if \<not> (m2 = Some ''reversal'' \<and> m1 \<noteq> Some ''reversal'')
                then d2(p2 := d2 p2 + damage_of m1) else d2);
          d4 = (if \<not> (m1 = Some ''reversal'' \<and> m2 \<noteq> Some ''reversal'')
                then d3(p1 := d3 p1 + damage_of m2) else d3)
      in d4)"

definition is_special :: "string option \<Rightarrow> bool" where
  "is_special m = (m = Some ''suplex'' \<or> m = Some ''rko'')"

text \<open>A non-empty string is true in a Python condition; \<open>None\<close> and \<open>""\<close> are false.\<close>

fun truthy :: "string option \<Rightarrow> bool" where
  "truthy None = False"
| "truthy (Some m) = (m \<noteq> [])"

definition is_player :: "uid \<Rightarrow> game \<Rightarrow> bool" where
  "is_player u g = (u = fst (players g) \<or> u = snd (players g))"

text \<open>\<open>build_move_keyboard\<close>, lines 265--289: the moves on the buttons, row after row.\<close>

definition build_move_keyboard :: "gid \<Rightarrow> state \<Rightarrow> string list" where
  "build_move_keyboard g s =
     [''punch'', ''kick'', ''slam''] @ [''dropkick''] @
     (case map_of (games s) g of
        None \<Rightarrow> [''suplex'', ''rko'']
      | Some gm \<Rightarrow>
          (if specials_left gm (fst (players gm)) > 0 \<or> specials_left gm (snd (players gm)) > 0
           then [''suplex'', ''rko''] else [])) @
     (case map_of (games s) g of
        None \<Rightarrow> [''reversal'']
      | Some gm \<Rightarrow>
          (if reversals_left gm (fst (players gm)) > 0 \<or> reversals_left gm (snd (players gm)) > 0
           then [''reversal''] else []))"

text \<open>\<open>send_round_prompt\<close>, lines 309--320.\<close>

definition send_round_prompt :: "gid \<Rightarrow> state \<Rightarrow> result" where
  "send_round_prompt g s =
     (case map_of (games s) g of
        None \<Rightarrow> (s, [])
      | Some gm \<Rightarrow> (s, [Prompt g (build_move_keyboard g s)]))"

definition new_game :: "uid \<Rightarrow> uid \<Rightarrow> game" where
  "new_game p1 p2 =
     \<lparr>players = (p1, p2),
      hp = (\<lambda>_. 0)(p1 := MAX_HP, p2 := MAX_HP),
      specials_left = (\<lambda>_. 0)(p1 := MAX_SPECIALS_PER_MATCH, p2 := MAX_SPECIALS_PER_MATCH),
      reversals_left = (\<lambda>_. 0)(p1 := MAX_REVERSALS_PER_MATCH, p2 := MAX_REVERSALS_PER_MATCH),
      last_move = (\<lambda>_. None)(p1 := None, p2 := None),
      move_choice = (\<lambda>_. None)(p1 := None, p2 := None)\<rparr>"

text \<open>\<open>start_match_sync\<close>, lines 291--307.\<close>

definition start_match_sync :: "gid \<Rightarrow> uid \<Rightarrow> uid \<Rightarrow> state \<Rightarrow> result" where
  "start_match_sync g p1 p2 s =
     and_then (s\<lparr>games := AList.update g (new_game p1 p2) (games s)\<rparr>,
               [Say (ToGroup g) (MatchStart p1 p2)])
       (send_round_prompt g)"

text \<open>The bookkeeping of a special move in the player's record, lines 357--360.\<close>

definition record_special :: "uid \<Rightarrow> bool \<Rightarrow> (uid \<times> stats) list \<Rightarrow> (uid \<times> stats) list" where
  "record_special u hit us =
     AList.map_entry u
       (\<lambda>r. if hit
            then r\<lparr>specials_used := specials_used r + 1,
                   specials_successful := specials_successful r + 1\<rparr>
            else r\<lparr>specials_used := specials_used r + 1\<rparr>)
       (setdefault_user u us)"

definition add_win :: "uid \<Rightarrow> (uid \<times> stats) list \<Rightarrow> (uid \<times> stats) list" where
  "add_win u us = AList.map_entry u (\<lambda>r. r\<lparr>wins := wins r + 1\<rparr>) us"

definition add_loss :: "uid \<Rightarrow> (uid \<times> stats) list \<Rightarrow> (uid \<times> stats) list" where
  "add_loss u us = AList.map_entry u (\<lambda>r. r\<lparr>losses := losses r + 1\<rparr>) us"

definition add_draw :: "uid \<Rightarrow> (uid \<times> stats) list \<Rightarrow> (uid \<times> stats) list" where
  "add_draw u us = AList.map_entry u (\<lambda>r. r\<lparr>draws := draws r + 1\<rparr>) us"

text \<open>
  The win and loss accounting that the knockout, the end-match confirmation and the
  forfeit share: both records are made if absent, then the winner's wins and the loser's
  losses go up by one.
\<close>

definition settle_win :: "uid \<Rightarrow> uid \<Rightarrow> (uid \<times> stats) list \<Rightarrow> (uid \<times> stats) list" where
  "settle_win w l us = add_loss l (add_win w (setdefault_user l (setdefault_user w us)))"

text \<open>The game after the hit points and the bookkeeping of lines 350--373.\<close>

definition apply_round :: "game \<Rightarrow> game" where
  "apply_round gm =
     (let p1 = fst (players gm); p2 = snd (players gm);
          m1 = move_choice gm p1; m2 = move_choice gm p2;
          d = dmg_to p1 p2 m1 m2;
          new1 = max 0 (hp gm p1 - d p1); new2 = max 0 (hp gm p2 - d p2);
          sl1 = (if is_special m1
                 then (specials_left gm)(p1 := max 0 (specials_left gm p1 - 1))
                 else specials_left gm);
          sl2 = (if is_special m2 then sl1(p2 := max 0 (sl1 p2 - 1)) else sl1);
          rl1 = (if m1 = Some ''reversal''
                 then (reversals_left gm)(p1 := max 0 (reversals_left gm p1 - 1))
                 else reversals_left gm);
          rl2 = (if m2 = Some ''reversal'' then rl1(p2 := max 0 (rl1 p2 - 1)) else rl1)
      in gm\<lparr>hp := (hp gm)(p1 := new1, p2 := new2),
            specials_left := sl2,
            reversals_left := rl2,
            last_move := (last_move gm)(p1 := m1, p2 := m2)\<rparr>)"

text \<open>The records after the special-move bookkeeping of lines 355--366.\<close>

definition round_stats :: "game \<Rightarrow> (uid \<times> stats) list \<Rightarrow> (uid \<times> stats) list" where
  "round_stats gm us =
     (let p1 = fst (players gm); p2 = snd (players gm);
          m1 = move_choice gm p1; m2 = move_choice gm p2;
          d = dmg_to p1 p2 m1 m2;
          us1 = (if is_special m1 then record_special p1 (d p2 > 0) us else us)
      in (if is_special m2 then record_special p2 (d p1 > 0) us1 else us1))"

text \<open>The four result messages of lines 376--392.\<close>

definition round_messages :: "gid \<Rightarrow> game \<Rightarrow> effect list" where
  "round_messages g gm =
     (let p1 = fst (players gm); p2 = snd (players gm);
          m1 = move_choice gm p1; m2 = move_choice gm p2;
          d = dmg_to p1 p2 m1 m2;
          new1 = max 0 (hp gm p1 - d p1); new2 = max 0 (hp gm p2 - d p2)
      in [Say (ToGroup g)
            (if m1 = Some ''reversal'' \<and> m2 \<noteq> Some ''reversal'' then Reversed p1 p2 (d p2)
             else if d p2 > 0 then Strike p1 m1 (d p2) else NoDamage p1 m1),
          Say (ToGroup g) (HpLine p1 new1),
          Say (ToGroup g)
            (if m2 = Some ''reversal'' \<and> m1 \<noteq> Some ''reversal'' then Reversed p2 p1 (d p1)
             else if d p1 > 0 then Strike p2 m2 (d p1) else NoDamage p2 m2),
          Say (ToGroup g) (HpLine p2 new2)])"

text \<open>The optional crowd line of lines 401--403.\<close>

definition hype :: "string option \<Rightarrow> string option \<Rightarrow> effect list \<Rightarrow> effect list" where
  "hype m1 m2 e =
     (if list_ex (\<lambda>m. m = Some ''dropkick'' \<or> m = Some ''suplex'' \<or> m = Some ''rko'')
           (filter truthy [m1, m2])
      then e else [])"

text \<open>
  \<open>resolve_turn_sync\<close>, lines 322--440, in its three parts: the state after the
  round's mutations (lines 350--373), the trace up to the optional crowd line
  (lines 327--403), and the knockout and draw logic (lines 405--440).

  Two expressions of the source raise on \<open>None\<close>: \<open>m.capitalize()\<close> in the reversal
  message when the reversed move is \<open>None\<close> (lines 377 and 383), and \<open>.upper()\<close> on the
  winner's name when that name is \<open>None\<close> (line 425). The state at that point is what
  the handler leaves.
\<close>

definition round_state :: "gid \<Rightarrow> game \<Rightarrow> state \<Rightarrow> state" where
  "round_state g gm s =
     s\<lparr>games := AList.update g (apply_round gm) (games s),
       user_stats := round_stats gm (user_stats s)\<rparr>"

definition round_trace :: "gid \<Rightarrow> game \<Rightarrow> effect list" where
  "round_trace g gm =
     [DeletePrompts g] @ round_messages g gm @ [SaveStats]
     @ hype (move_choice gm (fst (players gm))) (move_choice gm (snd (players gm)))
         [Say (ToGroup g) Hype]"

definition capitalize_raises :: "game \<Rightarrow> bool" where
  "capitalize_raises gm =
     (let m1 = move_choice gm (fst (players gm)); m2 = move_choice gm (snd (players gm))
      in (m1 = Some ''reversal'' \<and> m2 = None) \<or> (m2 = Some ''reversal'' \<and> m1 = None))"

definition ko_logic :: "gid \<Rightarrow> game \<Rightarrow> state \<Rightarrow> result" where
  "ko_logic g gm s1 =
     (let p1 = fst (players gm); p2 = snd (players gm);
          d = dmg_to p1 p2 (move_choice gm p1) (move_choice gm p2);
          new1 = max 0 (hp gm p1 - d p1); new2 = max 0 (hp gm p2 - d p2)
      in if new1 = 0 \<and> new2 = 0
         then (s1\<lparr>user_stats := add_draw p2 (add_draw p1
                       (setdefault_user p2 (setdefault_user p1 (user_stats s1)))),
                   games := AList.delete g (games s1)\<rparr>,
               [SaveStats, Say (ToGroup g) DoubleKO])
         else if new1 = 0 \<or> new2 = 0
         then (let w = (if new1 = 0 then p2 else p1);
                   l = (if new1 = 0 then p1 else p2);
                   us2 = settle_win w l (user_stats s1)
               in if get_name us2 w = PyNone
                  then (s1\<lparr>user_stats := us2\<rparr>, [SaveStats, LogException])
                  else (s1\<lparr>user_stats := us2, games := AList.delete g (games s1)\<rparr>,
                        [SaveStats, Say (ToGroup g) (WinsByKO w)]))
         else and_then
                (s1\<lparr>games := AList.update g
                       ((apply_round gm)\<lparr>move_choice :=
                           (move_choice (apply_round gm))(p1 := None, p2 := None)\<rparr>)
                       (games s1)\<rparr>,
                 [Say (ToGroup g) NextRound])
                (send_round_prompt g))"

definition resolve_turn_sync :: "gid \<Rightarrow> state \<Rightarrow> result" where
  "resolve_turn_sync g s =
     (case map_of (games s) g of
        None \<Rightarrow> (s, [])
      | Some gm \<Rightarrow>
          (if capitalize_raises gm
           then (round_state g gm s, [DeletePrompts g, LogException])
           else and_then (round_state g gm s, round_trace g gm) (ko_logic g gm)))"

section \<open>Event handlers\<close>

text \<open>
  The events of \<open>webhook_receiver\<close> after its parsing: a direct message with its text, a
  group message with the command its first word is, and the callbacks with the fields
  of their \<open>data\<close> string. A callback whose data does not split into the fields below is
  answered without a change of state.
\<close>

datatype group_cmd = CmdStartGame | CmdEndMatch | CmdHelp | CmdOther

datatype lobby_action = ActJoin | ActCancelLobby

datatype event =
    PrivateMsg uid string
  | GroupMsg gid uid group_cmd
  | LobbyCb lobby_action gid uid uid
  | MoveCb gid string uid
  | ConfirmEndCb gid string uid
  | ForfeitYesCb uid
  | ForfeitNoCb uid

text \<open>The group commands, lines 551--597.\<close>

definition handle_group :: "gid \<Rightarrow> uid \<Rightarrow> group_cmd \<Rightarrow> state \<Rightarrow> result" where
  "handle_group c u cmd s =
     (case cmd of
        CmdStartGame \<Rightarrow>
          (if map_of (user_stats s) u = None \<or> \<not> truthy_name (get_name (user_stats s) u)
           then (s, [Say (ToGroup c) MustRegister])
           else if map_of (games s) c \<noteq> None then (s, [Say (ToGroup c) MatchAlreadyActive])
           else if map_of (lobbies s) c \<noteq> None then (s, [Say (ToGroup c) LobbyAlreadyOpen])
           else (s\<lparr>lobbies := AList.update c \<lparr>host = u, lobby_players = [u]\<rparr> (lobbies s)\<rparr>,
                 [Say (ToGroup c) (LobbyOpened u)]))
      | CmdEndMatch \<Rightarrow>
          (case map_of (games s) c of
             None \<Rightarrow> (s, [Say (ToGroup c) NoActiveMatch])
           | Some gm \<Rightarrow>
               (if \<not> is_player u gm then (s, [Say (ToGroup c) PlayersOnly])
                else (s, [DeletePrompts c, Say (ToGroup c) ConfirmEndPrompt])))
      | CmdHelp \<Rightarrow> (s, [Say (ToGroup c) GroupHelp])
      | CmdOther \<Rightarrow> (s, []))"

text \<open>
  The lobby callbacks \<open>join|gid|host\<close> and \<open>cancel_lobby|gid|host\<close>, lines 611--646;
  \<open>h\<close> is the host id in the callback data, \<open>u\<close> the user who pressed the button.
\<close>

definition handle_lobby :: "lobby_action \<Rightarrow> gid \<Rightarrow> uid \<Rightarrow> uid \<Rightarrow> state \<Rightarrow> result" where
  "handle_lobby act g h u s =
     (if (case map_of (lobbies s) g of None \<Rightarrow> True | Some l \<Rightarrow> host l \<noteq> h)
      then (s\<lparr>lobbies := AList.delete g (lobbies s)\<rparr>, [Answer LobbyGone, SaveStats])
      else (case act of
        ActCancelLobby \<Rightarrow>
          (if u \<noteq> h then (s, [Answer OnlyHostCancels])
           else (s\<lparr>lobbies := AList.delete g (lobbies s)\<rparr>,
                 [Answer LobbyCancelled, Edit LobbyCancelled, SaveStats]))
      | ActJoin \<Rightarrow>
          (if u = h then (s, [Answer YouCreatedLobby])
           else if map_of (user_stats s) u = None \<or> \<not> truthy_name (get_name (user_stats s) u)
           then (s, [Answer MustRegisterJoin])
           else and_then
                  (and_then (s\<lparr>lobbies := AList.delete g (lobbies s)\<rparr>, [Answer Joining])
                     (start_match_sync g h u))
                  (\<lambda>s'. (s', [SaveStats])))))"

text \<open>The legality check of a move, lines 667--678.\<close>

definition blocked_reason :: "game \<Rightarrow> uid \<Rightarrow> string \<Rightarrow> block_reason option" where
  "blocked_reason gm u move =
     (let last = last_move gm u;
          r1 = (if is_special (Some move)
                then (if is_special last then Some SpecialCooldown
                      else if specials_left gm u \<le> 0 then Some NoSpecialsLeft
                      else None)
                else None)
      in (if move = ''reversal''
          then (if last = Some ''reversal'' then Some ReversalCooldown
                else if reversals_left gm u \<le> 0 then Some NoReversalsLeft
                else r1)
          else r1))"

text \<open>The move callback \<open>move|gid|move\<close>, lines 649--693.\<close>

definition handle_move :: "gid \<Rightarrow> string \<Rightarrow> uid \<Rightarrow> state \<Rightarrow> result" where
  "handle_move g move u s =
     (case map_of (games s) g of
        None \<Rightarrow> (s, [Answer NoActiveMatch])
      | Some gm \<Rightarrow>
          (if \<not> is_player u gm then (s, [Answer NotInMatch])
           else if move_choice gm u \<noteq> None then (s, [Answer AlreadyChose])
           else (case blocked_reason gm u move of
              Some r \<Rightarrow>
                (s, [Answer (Blocked r), Say (ToUser u) RestrictionDM,
                     Say (ToGroup g) (BlockedAnnounce u move)])
            | None \<Rightarrow>
                (let gm' = gm\<lparr>move_choice := (move_choice gm)(u := Some move)\<rparr>;
                     s' = s\<lparr>games := AList.update g gm' (games s)\<rparr>
                 in if truthy (move_choice gm' (fst (players gm')))
                       \<and> truthy (move_choice gm' (snd (players gm')))
                    then and_then (s', [Answer MoveRecorded]) (resolve_turn_sync g)
                    else (s', [Answer MoveRecorded])))))"

text \<open>
  A submission failed as blocked when the handler's first call is the alert that carries
  a block reason (line 681).
\<close>

definition is_blocked :: "effect list \<Rightarrow> bool" where
  "is_blocked e = (case e of Answer (Blocked r) # _ \<Rightarrow> True | _ \<Rightarrow> False)"

text \<open>The confirmation of \<open>/endmatch\<close>, \<open>confirm_end|gid|yes\<close> or \<open>no\<close>, lines 696--730.\<close>

definition handle_confirm_end :: "gid \<Rightarrow> string \<Rightarrow> uid \<Rightarrow> state \<Rightarrow> result" where
  "handle_confirm_end g choice u s =
     (case map_of (games s) g of
        None \<Rightarrow> (s, [Answer NoActiveMatch])
      | Some gm \<Rightarrow>
          (if \<not> is_player u gm then (s, [Answer OnlyParticipants])
           else (let opponent = (if fst (players gm) = u then snd (players gm)
                                 else fst (players gm))
                 in if choice = ''yes''
                    then (s\<lparr>user_stats := settle_win opponent u (user_stats s),
                            games := AList.delete g (games s)\<rparr>,
                          [SaveStats, Say (ToGroup g) (EndedByPlayer u opponent),
                           Answer MatchEndedAck, Edit MatchEndedEdit])
                    else (s, [Answer EndCanceled, Edit EndCanceled]))))"

text \<open>
  The confirmation of \<open>/forfeit\<close>, lines 733--770: the loop over \<open>games.items()\<close> stops at
  the first match that has the user as a player.
\<close>

definition handle_forfeit_yes :: "uid \<Rightarrow> state \<Rightarrow> result" where
  "handle_forfeit_yes u s =
     (case find (\<lambda>(g, gm). is_player u gm) (games s) of
        None \<Rightarrow> (s, [Edit NotInAMatch, Answer ForfeitProcessed])
      | Some (g, gm) \<Rightarrow>
          (let opp = (if u = fst (players gm) then snd (players gm) else fst (players gm))
           in (s\<lparr>user_stats := settle_win opp u (user_stats s),
                 games := AList.delete g (games s)\<rparr>,
               [DeletePrompts g, Say (ToGroup g) (Forfeited u opp), SaveStats,
                Edit ForfeitEdit, Answer ForfeitProcessed])))"

definition handle_forfeit_no :: "uid \<Rightarrow> state \<Rightarrow> result" where
  "handle_forfeit_no u s = (s, [Answer ForfeitCanceled, Edit ForfeitCanceled])"

text \<open>\<open>webhook_receiver\<close>, lines 479--774.\<close>

fun webhook_receiver :: "event \<Rightarrow> state \<Rightarrow> result" where
  "webhook_receiver (PrivateMsg u text) s = handle_private u text s"
| "webhook_receiver (GroupMsg c u cmd) s = handle_group c u cmd s"
| "webhook_receiver (LobbyCb act g h u) s = handle_lobby act g h u s"
| "webhook_receiver (MoveCb g move u) s = handle_move g move u s"
| "webhook_receiver (ConfirmEndCb g choice u) s = handle_confirm_end g choice u s"
| "webhook_receiver (ForfeitYesCb u) s = handle_forfeit_yes u s"
| "webhook_receiver (ForfeitNoCb u) s = handle_forfeit_no u s"

text \<open>
  The states the bot can be in: it starts with the records of the stats file and no
  lobby or match, and then handles one event after the other.
\<close>

inductive reachable :: "state \<Rightarrow> bool" where
  reachable_init: "lobbies s = [] \<Longrightarrow> games s = [] \<Longrightarrow> reachable s"
| reachable_step: "reachable s \<Longrightarrow> reachable (fst (webhook_receiver e s))"

text \<open>The run of a list of events from a state, for concrete scenarios.\<close>

fun run :: "event list \<Rightarrow> state \<Rightarrow> state" where
  "run [] s = s"
| "run (e # es) s = run es (fst (webhook_receiver e s))"

text \<open>
  A counter of a user as the bot reads it, \<open>user_stats.get(u, {}).get(key, 0)\<close>: a user
  without a record has 0.
\<close>

definition counter :: "(stats \<Rightarrow> int) \<Rightarrow> (uid \<times> stats) list \<Rightarrow> uid \<Rightarrow> int" where
  "counter f us u = (case map_of us u of None \<Rightarrow> 0 | Some r \<Rightarrow> f r)"

section \<open>Invariants of the reachable states\<close>

text \<open>A player's three resources are within their ranges.\<close>

definition in_bounds :: "game \<Rightarrow> uid \<Rightarrow> bool" where
  "in_bounds gm u =
     (0 \<le> hp gm u \<and> hp gm u \<le> MAX_HP
      \<and> 0 \<le> specials_left gm u \<and> specials_left gm u \<le> MAX_SPECIALS_PER_MATCH
      \<and> 0 \<le> reversals_left gm u \<and> reversals_left gm u \<le> MAX_REVERSALS_PER_MATCH)"

text \<open>A user with a non-empty name, the test of \<open>/startgame\<close> and of the join button.\<close>

definition registered :: "(uid \<times> stats) list \<Rightarrow> uid \<Rightarrow> bool" where
  "registered us u = truthy_name (get_name us u)"

definition game_inv :: "(uid \<times> stats) list \<Rightarrow> game \<Rightarrow> bool" where
  "game_inv us gm =
     (fst (players gm) \<noteq> snd (players gm)
      \<and> in_bounds gm (fst (players gm)) \<and> in_bounds gm (snd (players gm))
      \<and> registered us (fst (players gm)) \<and> registered us (snd (players gm)))"

definition state_inv :: "state \<Rightarrow> bool" where
  "state_inv s =
     (list_all (\<lambda>(g, gm). game_inv (user_stats s) gm) (games s)
      \<and> list_all (\<lambda>(g, l). registered (user_stats s) (host l)) (lobbies s))"

text \<open>Every user with a non-empty name in \<open>us\<close> has the same name in \<open>us'\<close>.\<close>

definition names_kept :: "(uid \<times> stats) list \<Rightarrow> (uid \<times> stats) list \<Rightarrow> bool" where
  "names_kept us us' = (\<forall>u. registered us u \<longrightarrow> get_name us' u = get_name us u)"

section \<open>Basic facts\<close>

lemma damage_table:
  "damage_of (Some ''punch'') = 5" "damage_of (Some ''kick'') = 15"
  "damage_of (Some ''slam'') = 25" "damage_of (Some ''dropkick'') = 30"
  "damage_of (Some ''suplex'') = 45" "damage_of (Some ''rko'') = 55"
  "damage_of (Some ''reversal'') = 0" "damage_of None = 0"
  by (simp_all add: damage_of_def MOVES_def)

lemma damage_of_nonneg: "0 \<le> damage_of m"
  by (auto simp: damage_of_def MOVES_def split: option.splits if_splits)

lemma dmg_to_cases:
  assumes "p1 \<noteq> p2"
  shows "dmg_to p1 p2 m1 m2 p1 =
           (if m1 = Some ''reversal'' \<and> m2 \<noteq> Some ''reversal'' then 0
            else if m2 = Some ''reversal'' \<and> m1 \<noteq> Some ''reversal'' then damage_of m1
            else damage_of m2)"
    and "dmg_to p1 p2 m1 m2 p2 =
           (if m2 = Some ''reversal'' \<and> m1 \<noteq> Some ''reversal'' then 0
            else if m1 = Some ''reversal'' \<and> m2 \<noteq> Some ''reversal'' then damage_of m2
            else damage_of m1)"
  using assms by (auto simp: dmg_to_def Let_def damage_table)

lemma dmg_to_nonneg: "0 \<le> dmg_to p1 p2 m1 m2 u"
  using damage_of_nonneg[of m1] damage_of_nonneg[of m2]
  by (auto simp: dmg_to_def Let_def)

lemma and_then_pair: "and_then (s, e) f = (fst (f s), e @ snd (f s))"
  by (simp add: and_then_def split: prod.splits)

lemma fst_and_then: "fst (and_then r f) = fst (f (fst r))"
  by (simp add: and_then_def split: prod.splits)

lemma snd_and_then: "snd (and_then r f) = snd r @ snd (f (fst r))"
  by (simp add: and_then_def split: prod.splits)

subsection \<open>Dictionaries\<close>

lemma set_update_cases:
  "x \<in> set (AList.update k v al) \<Longrightarrow> x = (k, v) \<or> x \<in> set al"
  by (induction al) (auto split: if_splits)

lemma set_delete_subset: "x \<in> set (AList.delete k al) \<Longrightarrow> x \<in> set al"
  by (simp add: AList.delete_eq)

lemma list_all_update:
  "list_all P al \<Longrightarrow> P (k, v) \<Longrightarrow> list_all P (AList.update k v al)"
  by (auto simp: list_all_iff dest: set_update_cases)

lemma list_all_delete: "list_all P al \<Longrightarrow> list_all P (AList.delete k al)"
  by (auto simp: list_all_iff dest: set_delete_subset)

lemma list_all_map_of:
  "list_all P al \<Longrightarrow> map_of al k = Some v \<Longrightarrow> P (k, v)"
  by (auto simp: list_all_iff dest: map_of_SomeD)

lemma list_all_mono:
  "list_all P al \<Longrightarrow> (\<And>x. x \<in> set al \<Longrightarrow> P x \<Longrightarrow> Q x) \<Longrightarrow> list_all Q al"
  by (auto simp: list_all_iff)

subsection \<open>Names survive every update of the records\<close>

lemma names_kept_refl: "names_kept us us"
  by (simp add: names_kept_def)

lemma registered_kept: "names_kept us us' \<Longrightarrow> registered us u \<Longrightarrow> registered us' u"
  by (simp add: names_kept_def registered_def)

lemma names_kept_trans: "names_kept a b \<Longrightarrow> names_kept b c \<Longrightarrow> names_kept a c"
  by (simp add: names_kept_def registered_def)

lemma get_name_map_entry:
  "(\<And>r. name (f r) = name r) \<Longrightarrow> get_name (AList.map_entry k f us) u = get_name us u"
  by (simp add: get_name_def map_of_map_entry split: option.splits)

lemma names_kept_setdefault: "names_kept us (setdefault_user v us)"
  by (auto simp: names_kept_def registered_def setdefault_user_def get_name_def
        update_conv' split: option.splits)

lemma names_kept_map_entry:
  "(\<And>r. name (f r) = name r) \<Longrightarrow> names_kept us (AList.map_entry k f us)"
  by (simp add: names_kept_def get_name_map_entry)

lemma names_kept_record_special: "names_kept us (record_special u hit us)"
  unfolding record_special_def
  by (rule names_kept_trans[OF names_kept_setdefault]) (rule names_kept_map_entry, simp)

lemma names_kept_add_win: "names_kept us (add_win u us)"
  unfolding add_win_def by (rule names_kept_map_entry) simp

lemma names_kept_add_loss: "names_kept us (add_loss u us)"
  unfolding add_loss_def by (rule names_kept_map_entry) simp

lemma names_kept_add_draw: "names_kept us (add_draw u us)"
  unfolding add_draw_def by (rule names_kept_map_entry) simp

lemma names_kept_settle_win: "names_kept us (settle_win w l us)"
proof -
  have "names_kept us (setdefault_user w us)"
    by (rule names_kept_setdefault)
  then have "names_kept us (setdefault_user l (setdefault_user w us))"
    by (rule names_kept_trans) (rule names_kept_setdefault)
  then have "names_kept us (add_win w (setdefault_user l (setdefault_user w us)))"
    by (rule names_kept_trans) (rule names_kept_add_win)
  then show ?thesis
    unfolding settle_win_def by (rule names_kept_trans) (rule names_kept_add_loss)
qed

lemma names_kept_round_stats: "names_kept us (round_stats gm us)"
proof -
  have step: "names_kept us a \<Longrightarrow> names_kept us (if c then record_special u hit a else a)"
    for a c u hit
    by (auto elim: names_kept_trans intro: names_kept_record_special)
  show ?thesis
    unfolding round_stats_def Let_def
    by (intro step names_kept_refl)
qed

lemma names_kept_draws:
  "names_kept us (add_draw p2 (add_draw p1 (setdefault_user p2 (setdefault_user p1 us))))"
proof -
  have "names_kept us (setdefault_user p1 us)"
    by (rule names_kept_setdefault)
  then have "names_kept us (setdefault_user p2 (setdefault_user p1 us))"
    by (rule names_kept_trans) (rule names_kept_setdefault)
  then have "names_kept us (add_draw p1 (setdefault_user p2 (setdefault_user p1 us)))"
    by (rule names_kept_trans) (rule names_kept_add_draw)
  then show ?thesis
    by (rule names_kept_trans) (rule names_kept_add_draw)
qed

lemma names_kept_ensure_user: "names_kept (user_stats s) (user_stats (fst (ensure_user u s)))"
  by (auto simp: ensure_user_def names_kept_def registered_def get_name_def update_conv'
        split: option.splits)

lemma registered_register_name:
  "registered (user_stats s) v \<Longrightarrow> registered (user_stats (fst (register_name u text s))) v"
  by (auto simp: register_name_def Let_def registered_def get_name_def map_of_map_entry
        setdefault_user_def update_conv' split: option.splits)

section \<open>The engine step by step\<close>

lemma map_of_alist_update [simp]: "map_of (AList.update k v al) = (map_of al)(k \<mapsto> v)"
  by (rule update_conv')

lemma map_of_alist_delete [simp]: "map_of (AList.delete k al) = (map_of al)(k := None)"
  by (rule delete_conv')

subsection \<open>The fields of a match after a round\<close>

lemma players_apply_round [simp]: "players (apply_round gm) = players gm"
  by (simp add: apply_round_def Let_def)

lemma move_choice_apply_round [simp]: "move_choice (apply_round gm) = move_choice gm"
  by (simp add: apply_round_def Let_def)

lemma apply_round_hp:
  assumes "players gm = (p1, p2)"
  shows "hp (apply_round gm) =
           (hp gm)(p1 := max 0 (hp gm p1 - dmg_to p1 p2 (move_choice gm p1) (move_choice gm p2) p1),
                   p2 := max 0 (hp gm p2 - dmg_to p1 p2 (move_choice gm p1) (move_choice gm p2) p2))"
  using assms by (simp add: apply_round_def Let_def)

lemma apply_round_specials:
  assumes "players gm = (p1, p2)" and "p1 \<noteq> p2"
  shows "specials_left (apply_round gm) p1 =
           (if is_special (move_choice gm p1) then max 0 (specials_left gm p1 - 1)
            else specials_left gm p1)"
    and "specials_left (apply_round gm) p2 =
           (if is_special (move_choice gm p2) then max 0 (specials_left gm p2 - 1)
            else specials_left gm p2)"
  using assms by (simp_all add: apply_round_def Let_def)

lemma apply_round_reversals:
  assumes "players gm = (p1, p2)" and "p1 \<noteq> p2"
  shows "reversals_left (apply_round gm) p1 =
           (if move_choice gm p1 = Some ''reversal'' then max 0 (reversals_left gm p1 - 1)
            else reversals_left gm p1)"
    and "reversals_left (apply_round gm) p2 =
           (if move_choice gm p2 = Some ''reversal'' then max 0 (reversals_left gm p2 - 1)
            else reversals_left gm p2)"
  using assms by (simp_all add: apply_round_def Let_def)

lemma apply_round_last_move:
  assumes "players gm = (p1, p2)"
  shows "last_move (apply_round gm) = (last_move gm)(p1 := move_choice gm p1, p2 := move_choice gm p2)"
  using assms by (simp add: apply_round_def Let_def)

lemma specials_left_apply_round:
  assumes "0 \<le> specials_left gm u"
  shows "0 \<le> specials_left (apply_round gm) u
         \<and> specials_left (apply_round gm) u \<le> specials_left gm u"
  using assms by (auto simp: apply_round_def Let_def)

lemma reversals_left_apply_round:
  assumes "0 \<le> reversals_left gm u"
  shows "0 \<le> reversals_left (apply_round gm) u
         \<and> reversals_left (apply_round gm) u \<le> reversals_left gm u"
  using assms by (auto simp: apply_round_def Let_def)

lemma hp_apply_round_bounds:
  assumes "0 \<le> hp gm (fst (players gm))" and "0 \<le> hp gm (snd (players gm))"
    and "0 \<le> hp gm u"
  shows "0 \<le> hp (apply_round gm) u \<and> (hp gm u \<le> b \<longrightarrow> hp gm (fst (players gm)) \<le> b
           \<longrightarrow> hp gm (snd (players gm)) \<le> b \<longrightarrow> hp (apply_round gm) u \<le> b)"
proof -
  obtain p1 p2 where p: "players gm = (p1, p2)" by (cases "players gm")
  have "0 \<le> dmg_to p1 p2 (move_choice gm p1) (move_choice gm p2) p1"
       "0 \<le> dmg_to p1 p2 (move_choice gm p1) (move_choice gm p2) p2"
    by (rule dmg_to_nonneg)+
  then show ?thesis
    using assms p by (simp add: apply_round_hp[OF p])
qed

subsection \<open>The records after a settlement\<close>

lemma map_of_setdefault_user:
  "map_of (setdefault_user u us) =
     (map_of us)(u \<mapsto> (case map_of us u of None \<Rightarrow> empty_stats | Some r \<Rightarrow> r))"
  by (auto simp: setdefault_user_def fun_eq_iff)

lemma counter_setdefault:
  "f empty_stats = 0 \<Longrightarrow> counter f (setdefault_user u us) v = counter f us v"
  by (auto simp: counter_def map_of_setdefault_user split: option.splits)

lemma counter_map_entry:
  "counter f (AList.map_entry u h us) v =
     (if v = u then (case map_of us u of None \<Rightarrow> 0 | Some r \<Rightarrow> f (h r)) else counter f us v)"
  by (simp add: counter_def map_of_map_entry split: option.splits)

lemma map_of_other_setdefault: "v \<noteq> u \<Longrightarrow> map_of (setdefault_user u us) v = map_of us v"
  by (simp add: map_of_setdefault_user)

lemma map_of_other_map_entry: "v \<noteq> u \<Longrightarrow> map_of (AList.map_entry u h us) v = map_of us v"
  by (simp add: map_of_map_entry)

lemma setdefault_present: "map_of (setdefault_user u us) u \<noteq> None"
  by (simp add: map_of_setdefault_user)

lemma map_entry_present: "map_of us v \<noteq> None \<Longrightarrow> map_of (AList.map_entry u h us) v \<noteq> None"
  by (auto simp: map_of_map_entry split: option.splits)

lemma settle_win_others:
  "v \<noteq> w \<Longrightarrow> v \<noteq> l \<Longrightarrow> map_of (settle_win w l us) v = map_of us v"
  by (simp add: settle_win_def add_win_def add_loss_def map_of_other_map_entry
        map_of_other_setdefault)

lemma settle_win_counters:
  assumes "w \<noteq> l"
  shows "counter wins (settle_win w l us) w = counter wins us w + 1"
    and "counter losses (settle_win w l us) l = counter losses us l + 1"
    and "counter losses (settle_win w l us) w = counter losses us w"
    and "counter wins (settle_win w l us) l = counter wins us l"
    and "counter draws (settle_win w l us) v = counter draws us v"
  using assms
  by (auto simp: settle_win_def add_win_def add_loss_def counter_def map_of_map_entry
        map_of_setdefault_user empty_stats_def split: option.splits)

lemma draw_others:
  "v \<noteq> p1 \<Longrightarrow> v \<noteq> p2 \<Longrightarrow>
   map_of (add_draw p2 (add_draw p1 (setdefault_user p2 (setdefault_user p1 us)))) v = map_of us v"
  by (simp add: add_draw_def map_of_other_map_entry map_of_other_setdefault)

lemma draw_counters:
  assumes "p1 \<noteq> p2"
  shows "counter draws (add_draw p2 (add_draw p1 (setdefault_user p2 (setdefault_user p1 us)))) p1
           = counter draws us p1 + 1"
    and "counter draws (add_draw p2 (add_draw p1 (setdefault_user p2 (setdefault_user p1 us)))) p2
           = counter draws us p2 + 1"
    and "counter wins (add_draw p2 (add_draw p1 (setdefault_user p2 (setdefault_user p1 us)))) v
           = counter wins us v"
    and "counter losses (add_draw p2 (add_draw p1 (setdefault_user p2 (setdefault_user p1 us)))) v
           = counter losses us v"
  using assms
  by (auto simp: add_draw_def counter_def map_of_map_entry
        map_of_setdefault_user empty_stats_def split: option.splits)

subsection \<open>The parts of a resolution\<close>

lemma send_round_prompt_state [simp]: "fst (send_round_prompt g s) = s"
  by (simp add: send_round_prompt_def split: option.splits)

lemma resolve_none: "map_of (games s) g = None \<Longrightarrow> resolve_turn_sync g s = (s, [])"
  by (simp add: resolve_turn_sync_def)

lemma resolve_raises:
  "map_of (games s) g = Some gm \<Longrightarrow> capitalize_raises gm \<Longrightarrow>
   resolve_turn_sync g s = (round_state g gm s, [DeletePrompts g, LogException])"
  by (simp add: resolve_turn_sync_def)

lemma resolve_some:
  "map_of (games s) g = Some gm \<Longrightarrow> \<not> capitalize_raises gm \<Longrightarrow>
   resolve_turn_sync g s =
     (fst (ko_logic g gm (round_state g gm s)),
      round_trace g gm @ snd (ko_logic g gm (round_state g gm s)))"
  by (simp add: resolve_turn_sync_def and_then_pair)

lemma truthy_not_raises:
  "truthy (move_choice gm (fst (players gm))) \<Longrightarrow> truthy (move_choice gm (snd (players gm)))
   \<Longrightarrow> \<not> capitalize_raises gm"
  by (cases "move_choice gm (fst (players gm))"; cases "move_choice gm (snd (players gm))")
     (simp_all add: capitalize_raises_def Let_def)

lemma round_state_fields [simp]:
  "games (round_state g gm s) = AList.update g (apply_round gm) (games s)"
  "user_stats (round_state g gm s) = round_stats gm (user_stats s)"
  "lobbies (round_state g gm s) = lobbies s"
  by (simp_all add: round_state_def)

lemma round_stats_no_special:
  "\<not> is_special (move_choice gm (fst (players gm))) \<Longrightarrow>
   \<not> is_special (move_choice gm (snd (players gm))) \<Longrightarrow> round_stats gm us = us"
  by (simp add: round_stats_def Let_def)

lemma ko_logic_draw:
  assumes "players gm = (p1, p2)" and "p1 \<noteq> p2"
    and "hp (apply_round gm) p1 = 0" and "hp (apply_round gm) p2 = 0"
  shows "ko_logic g gm s1 =
           (s1\<lparr>user_stats := add_draw p2 (add_draw p1
                   (setdefault_user p2 (setdefault_user p1 (user_stats s1)))),
               games := AList.delete g (games s1)\<rparr>,
            [SaveStats, Say (ToGroup g) DoubleKO])"
  using assms by (simp add: ko_logic_def Let_def apply_round_hp[OF assms(1)])

lemma ko_logic_win:
  assumes "players gm = (p1, p2)" and "p1 \<noteq> p2"
    and "(hp (apply_round gm) p1 = 0) \<noteq> (hp (apply_round gm) p2 = 0)"
    and "w = (if hp (apply_round gm) p1 = 0 then p2 else p1)"
    and "l = (if hp (apply_round gm) p1 = 0 then p1 else p2)"
  shows "ko_logic g gm s1 =
           (if get_name (settle_win w l (user_stats s1)) w = PyNone
            then (s1\<lparr>user_stats := settle_win w l (user_stats s1)\<rparr>, [SaveStats, LogException])
            else (s1\<lparr>user_stats := settle_win w l (user_stats s1),
                     games := AList.delete g (games s1)\<rparr>,
                  [SaveStats, Say (ToGroup g) (WinsByKO w)]))"
  using assms by (auto simp: ko_logic_def Let_def apply_round_hp[OF assms(1)])

lemma ko_logic_next:
  assumes "players gm = (p1, p2)" and "p1 \<noteq> p2"
    and "hp (apply_round gm) p1 \<noteq> 0" and "hp (apply_round gm) p2 \<noteq> 0"
  shows "ko_logic g gm s1 =
           (s1\<lparr>games := AList.update g
                  ((apply_round gm)\<lparr>move_choice := (move_choice gm)(p1 := None, p2 := None)\<rparr>)
                  (games s1)\<rparr>,
            [Say (ToGroup g) NextRound,
             Prompt g (build_move_keyboard g
               (s1\<lparr>games := AList.update g
                  ((apply_round gm)\<lparr>move_choice := (move_choice gm)(p1 := None, p2 := None)\<rparr>)
                  (games s1)\<rparr>))])"
  using assms
  by (auto simp: ko_logic_def Let_def apply_round_hp[OF assms(1)] and_then_pair
        send_round_prompt_def)

subsection \<open>Submitting a move\<close>

lemma handle_move_legal:
  assumes "map_of (games s) g = Some gm" and "is_player u gm" and "move_choice gm u = None"
    and "blocked_reason gm u move = None"
  shows "handle_move g move u s =
           (if truthy (((move_choice gm)(u := Some move)) (fst (players gm)))
               \<and> truthy (((move_choice gm)(u := Some move)) (snd (players gm)))
            then (fst (resolve_turn_sync g
                    (s\<lparr>games := AList.update g
                         (gm\<lparr>move_choice := (move_choice gm)(u := Some move)\<rparr>) (games s)\<rparr>)),
                  Answer MoveRecorded # snd (resolve_turn_sync g
                    (s\<lparr>games := AList.update g
                         (gm\<lparr>move_choice := (move_choice gm)(u := Some move)\<rparr>) (games s)\<rparr>)))
            else (s\<lparr>games := AList.update g
                      (gm\<lparr>move_choice := (move_choice gm)(u := Some move)\<rparr>) (games s)\<rparr>,
                  [Answer MoveRecorded]))"
  using assms by (simp add: handle_move_def Let_def and_then_pair)

lemma handle_move_blocked:
  assumes "map_of (games s) g = Some gm" and "is_player u gm" and "move_choice gm u = None"
    and "blocked_reason gm u move = Some r"
  shows "handle_move g move u s =
           (s, [Answer (Blocked r), Say (ToUser u) RestrictionDM,
                Say (ToGroup g) (BlockedAnnounce u move)])"
  using assms by (simp add: handle_move_def)

lemma blocked_reason_plain:
  "move \<noteq> ''suplex'' \<Longrightarrow> move \<noteq> ''rko'' \<Longrightarrow> move \<noteq> ''reversal'' \<Longrightarrow>
   blocked_reason gm u move = None"
  by (simp add: blocked_reason_def is_special_def)

section \<open>Damage of a round\<close>

lemma round_messages_in_trace:
  assumes "map_of (games s) g = Some gm" and "\<not> capitalize_raises gm"
  shows "set (round_messages g gm) \<subseteq> set (snd (resolve_turn_sync g s))"
  using assms by (auto simp: resolve_some round_trace_def)

lemma hp_lines_in_messages:
  assumes "players gm = (p1, p2)"
  shows "Say (ToGroup g) (HpLine p1 (max 0 (hp gm p1
           - dmg_to p1 p2 (move_choice gm p1) (move_choice gm p2) p1))) \<in> set (round_messages g gm)"
    and "Say (ToGroup g) (HpLine p2 (max 0 (hp gm p2
           - dmg_to p1 p2 (move_choice gm p1) (move_choice gm p2) p2))) \<in> set (round_messages g gm)"
  using assms by (simp_all add: round_messages_def Let_def)

lemma resolve_match_after:
  assumes "map_of (games s) g = Some gm" and "players gm = (p1, p2)" and "p1 \<noteq> p2"
    and "\<not> capitalize_raises gm"
  shows "map_of (games (fst (resolve_turn_sync g s))) g = Some gm' \<Longrightarrow>
           hp gm' = hp (apply_round gm)"
    and "hp (apply_round gm) p1 \<noteq> 0 \<Longrightarrow> hp (apply_round gm) p2 \<noteq> 0 \<Longrightarrow>
           map_of (games (fst (resolve_turn_sync g s))) g \<noteq> None"
proof -
  let ?s1 = "round_state g gm s"
  have res: "fst (resolve_turn_sync g s) = fst (ko_logic g gm ?s1)"
    by (simp add: resolve_some[OF assms(1,4)])
  consider (draw) "hp (apply_round gm) p1 = 0" "hp (apply_round gm) p2 = 0"
    | (win) "(hp (apply_round gm) p1 = 0) \<noteq> (hp (apply_round gm) p2 = 0)"
    | (nxt) "hp (apply_round gm) p1 \<noteq> 0" "hp (apply_round gm) p2 \<noteq> 0"
    by blast
  then have "(\<forall>x. map_of (games (fst (ko_logic g gm ?s1))) g = Some x \<longrightarrow>
                 hp x = hp (apply_round gm))
           \<and> (hp (apply_round gm) p1 \<noteq> 0 \<longrightarrow> hp (apply_round gm) p2 \<noteq> 0 \<longrightarrow>
                 map_of (games (fst (ko_logic g gm ?s1))) g \<noteq> None)"
  proof cases
    case draw
    then show ?thesis
      by (simp add: ko_logic_draw[OF assms(2,3) draw])
  next
    case win
    show ?thesis
      using win by (simp add: ko_logic_win[OF assms(2,3) win refl refl])
  next
    case nxt
    then show ?thesis
      by (simp add: ko_logic_next[OF assms(2,3) nxt])
  qed
  then show "map_of (games (fst (resolve_turn_sync g s))) g = Some gm' \<Longrightarrow>
           hp gm' = hp (apply_round gm)"
    and "hp (apply_round gm) p1 \<noteq> 0 \<Longrightarrow> hp (apply_round gm) p2 \<noteq> 0 \<Longrightarrow>
           map_of (games (fst (resolve_turn_sync g s))) g \<noteq> None"
    by (simp_all add: res)
qed

text \<open>
  Claim C1. In a round resolved with the submitted moves \<open>m1\<close> and \<open>m2\<close> of the two
  distinct players: if exactly one player chose reversal, the reversing player takes 0
  and the opponent takes the base damage of the opponent's own move; if neither or both
  chose reversal, each player takes the base damage of the opponent's move, which is 0
  for both under mutual reversal. The damage is taken off the hit points, floored at 0:
  whenever the state that \<open>resolve_turn_sync\<close> returns still has the match, the match
  has these hit points; it has the match whenever both are above 0; and in every case
  the resolution announces these hit points.
\<close>

theorem resolve_damage_reversal:
  assumes "map_of (games s) g = Some gm" and "players gm = (p1, p2)" and "p1 \<noteq> p2"
    and "move_choice gm p1 = Some m1" and "move_choice gm p2 = Some m2"
  shows "(m1 = ''reversal'' \<and> m2 \<noteq> ''reversal'' \<longrightarrow>
            dmg_to p1 p2 (Some m1) (Some m2) p1 = 0
            \<and> dmg_to p1 p2 (Some m1) (Some m2) p2 = damage_of (Some m2))
       \<and> (m2 = ''reversal'' \<and> m1 \<noteq> ''reversal'' \<longrightarrow>
            dmg_to p1 p2 (Some m1) (Some m2) p2 = 0
            \<and> dmg_to p1 p2 (Some m1) (Some m2) p1 = damage_of (Some m1))
       \<and> ((m1 = ''reversal'') = (m2 = ''reversal'') \<longrightarrow>
            dmg_to p1 p2 (Some m1) (Some m2) p1 = damage_of (Some m2)
            \<and> dmg_to p1 p2 (Some m1) (Some m2) p2 = damage_of (Some m1))
       \<and> (m1 = ''reversal'' \<and> m2 = ''reversal'' \<longrightarrow>
            dmg_to p1 p2 (Some m1) (Some m2) p1 = 0 \<and> dmg_to p1 p2 (Some m1) (Some m2) p2 = 0)
       \<and> (\<forall>gm'. map_of (games (fst (resolve_turn_sync g s))) g = Some gm' \<longrightarrow>
            hp gm' p1 = max 0 (hp gm p1 - dmg_to p1 p2 (Some m1) (Some m2) p1)
            \<and> hp gm' p2 = max 0 (hp gm p2 - dmg_to p1 p2 (Some m1) (Some m2) p2))
       \<and> (max 0 (hp gm p1 - dmg_to p1 p2 (Some m1) (Some m2) p1) \<noteq> 0
            \<and> max 0 (hp gm p2 - dmg_to p1 p2 (Some m1) (Some m2) p2) \<noteq> 0 \<longrightarrow>
            map_of (games (fst (resolve_turn_sync g s))) g \<noteq> None)
       \<and> Say (ToGroup g) (HpLine p1 (max 0 (hp gm p1 - dmg_to p1 p2 (Some m1) (Some m2) p1)))
           \<in> set (snd (resolve_turn_sync g s))
       \<and> Say (ToGroup g) (HpLine p2 (max 0 (hp gm p2 - dmg_to p1 p2 (Some m1) (Some m2) p2)))
           \<in> set (snd (resolve_turn_sync g s))"
proof -
  have d: "(m1 = ''reversal'' \<and> m2 \<noteq> ''reversal'' \<longrightarrow>
            dmg_to p1 p2 (Some m1) (Some m2) p1 = 0
            \<and> dmg_to p1 p2 (Some m1) (Some m2) p2 = damage_of (Some m2))
       \<and> (m2 = ''reversal'' \<and> m1 \<noteq> ''reversal'' \<longrightarrow>
            dmg_to p1 p2 (Some m1) (Some m2) p2 = 0
            \<and> dmg_to p1 p2 (Some m1) (Some m2) p1 = damage_of (Some m1))
       \<and> ((m1 = ''reversal'') = (m2 = ''reversal'') \<longrightarrow>
            dmg_to p1 p2 (Some m1) (Some m2) p1 = damage_of (Some m2)
            \<and> dmg_to p1 p2 (Some m1) (Some m2) p2 = damage_of (Some m1))
       \<and> (m1 = ''reversal'' \<and> m2 = ''reversal'' \<longrightarrow>
            dmg_to p1 p2 (Some m1) (Some m2) p1 = 0 \<and> dmg_to p1 p2 (Some m1) (Some m2) p2 = 0)"
    using assms(3) by (auto simp: dmg_to_cases damage_table)
  have h: "hp (apply_round gm) p1 = max 0 (hp gm p1 - dmg_to p1 p2 (Some m1) (Some m2) p1)"
          "hp (apply_round gm) p2 = max 0 (hp gm p2 - dmg_to p1 p2 (Some m1) (Some m2) p2)"
    using assms by (simp_all add: apply_round_hp)
  have nr: "\<not> capitalize_raises gm"
    using assms by (simp add: capitalize_raises_def)
  have st: "\<forall>gm'. map_of (games (fst (resolve_turn_sync g s))) g = Some gm' \<longrightarrow>
            hp gm' p1 = max 0 (hp gm p1 - dmg_to p1 p2 (Some m1) (Some m2) p1)
            \<and> hp gm' p2 = max 0 (hp gm p2 - dmg_to p1 p2 (Some m1) (Some m2) p2)"
    using resolve_match_after(1)[OF assms(1,2,3) nr] h by simp
  have al: "max 0 (hp gm p1 - dmg_to p1 p2 (Some m1) (Some m2) p1) \<noteq> 0
            \<and> max 0 (hp gm p2 - dmg_to p1 p2 (Some m1) (Some m2) p2) \<noteq> 0 \<longrightarrow>
            map_of (games (fst (resolve_turn_sync g s))) g \<noteq> None"
    using resolve_match_after(2)[OF assms(1,2,3) nr] h by simp
  have "Say (ToGroup g) (HpLine p1 (max 0 (hp gm p1 - dmg_to p1 p2 (Some m1) (Some m2) p1)))
          \<in> set (round_messages g gm)"
       "Say (ToGroup g) (HpLine p2 (max 0 (hp gm p2 - dmg_to p1 p2 (Some m1) (Some m2) p2)))
          \<in> set (round_messages g gm)"
    using hp_lines_in_messages[OF assms(2), of g] assms(4,5) by simp_all
  with round_messages_in_trace[OF assms(1) nr] d st al show ?thesis by blast
qed

theorem resolve_damage_reversal_witness:
  "map_of (games (fst (resolve_turn_sync ''g''
      \<lparr>user_stats = [], lobbies = [],
       games = [(''g'', (new_game 1 2)\<lparr>move_choice := (\<lambda>_. None)(1 := Some ''reversal'', 2 := Some ''slam'')\<rparr>)]\<rparr>))) ''g'' \<noteq> None
   \<and> hp (the (map_of (games (fst (resolve_turn_sync ''g''
      \<lparr>user_stats = [], lobbies = [],
       games = [(''g'', (new_game 1 2)\<lparr>move_choice := (\<lambda>_. None)(1 := Some ''reversal'', 2 := Some ''slam'')\<rparr>)]\<rparr>))) ''g'')) 1 = 200
   \<and> hp (the (map_of (games (fst (resolve_turn_sync ''g''
      \<lparr>user_stats = [], lobbies = [],
       games = [(''g'', (new_game 1 2)\<lparr>move_choice := (\<lambda>_. None)(1 := Some ''reversal'', 2 := Some ''slam'')\<rparr>)]\<rparr>))) ''g'')) 2 = 175
   \<and> Say (ToGroup ''g'') (HpLine 2 175)
       \<in> set (snd (resolve_turn_sync ''g''
            \<lparr>user_stats = [], lobbies = [],
             games = [(''g'', (new_game 1 2)\<lparr>move_choice := (\<lambda>_. None)(1 := Some ''reversal'', 2 := Some ''slam'')\<rparr>)]\<rparr>))"
proof -
  let ?gm = "(new_game 1 2)\<lparr>move_choice := (\<lambda>_. None)(1 := Some ''reversal'', 2 := Some ''slam'')\<rparr>"
  let ?st = "\<lparr>user_stats = [], lobbies = [], games = [(''g'', ?gm)]\<rparr>"
  have a: "map_of (games ?st) ''g'' = Some ?gm" by simp
  have b: "players ?gm = (1, 2)" by (simp add: new_game_def)
  have c: "(1::int) \<noteq> 2" by simp
  have d: "move_choice ?gm 1 = Some ''reversal''" by simp
  have e: "move_choice ?gm 2 = Some ''slam''" by simp
  have f: "hp ?gm 1 = 200" "hp ?gm 2 = 200" by (simp_all add: new_game_def MAX_HP_def)
  have dm: "dmg_to 1 2 (Some ''reversal'') (Some ''slam'') 1 = 0"
           "dmg_to 1 2 (Some ''reversal'') (Some ''slam'') 2 = 25"
    by (simp_all add: dmg_to_cases damage_table)
  note t = resolve_damage_reversal[OF a b c d e, unfolded f dm]
  have ne: "map_of (games (fst (resolve_turn_sync ''g'' ?st))) ''g'' \<noteq> None"
    using t by simp
  then obtain gm' where g': "map_of (games (fst (resolve_turn_sync ''g'' ?st))) ''g'' = Some gm'"
    by blast
  have "hp gm' 1 = 200 \<and> hp gm' 2 = 175"
    using t g' by simp
  moreover have "Say (ToGroup ''g'') (HpLine 2 175) \<in> set (snd (resolve_turn_sync ''g'' ?st))"
    using t by simp
  ultimately show ?thesis
    using g' by simp
qed

subsection \<open>A round of a medium against a heavy strike\<close>

lemma new_game_fields [simp]:
  "players (new_game p1 p2) = (p1, p2)"
  "hp (new_game p1 p2) p1 = 200" "hp (new_game p1 p2) p2 = 200"
  "specials_left (new_game p1 p2) p1 = 4" "specials_left (new_game p1 p2) p2 = 4"
  "reversals_left (new_game p1 p2) p1 = 3" "reversals_left (new_game p1 p2) p2 = 3"
  "last_move (new_game p1 p2) = (\<lambda>_. None)"
  "move_choice (new_game p1 p2) = (\<lambda>_. None)"
  by (simp_all add: new_game_def MAX_HP_def MAX_SPECIALS_PER_MATCH_def
        MAX_REVERSALS_PER_MATCH_def)

lemma kick_slam_round:
  assumes "map_of (games s) g = Some (new_game p1 p2)" and "p1 \<noteq> p2"
  defines "r1 \<equiv> webhook_receiver (MoveCb g ''kick'' p1) s"
  defines "r2 \<equiv> webhook_receiver (MoveCb g ''slam'' p2) (fst r1)"
  shows "\<exists>gm. map_of (games (fst r2)) g = Some gm
           \<and> hp gm p1 = 175 \<and> hp gm p2 = 185
           \<and> move_choice gm p1 = None \<and> move_choice gm p2 = None"
    and "user_stats (fst r2) = user_stats s"
    and "snd r2 = [Answer MoveRecorded, DeletePrompts g,
                   Say (ToGroup g) (Strike p1 (Some ''kick'') 15),
                   Say (ToGroup g) (HpLine p1 175),
                   Say (ToGroup g) (Strike p2 (Some ''slam'') 25),
                   Say (ToGroup g) (HpLine p2 185),
                   SaveStats, Say (ToGroup g) NextRound,
                   Prompt g [''punch'', ''kick'', ''slam'', ''dropkick'', ''suplex'',
                             ''rko'', ''reversal'']]"
proof -
  define gm1 where "gm1 = (new_game p1 p2)\<lparr>move_choice := (\<lambda>_. None)(p1 := Some ''kick'')\<rparr>"
  define s1 where "s1 = s\<lparr>games := AList.update g gm1 (games s)\<rparr>"
  define gm2 where "gm2 = gm1\<lparr>move_choice := (move_choice gm1)(p2 := Some ''slam'')\<rparr>"
  define s2 where "s2 = s1\<lparr>games := AList.update g gm2 (games s1)\<rparr>"
  define gm3 where
    "gm3 = (apply_round gm2)\<lparr>move_choice := (move_choice gm2)(p1 := None, p2 := None)\<rparr>"
  define s3 where
    "s3 = (round_state g gm2 s2)\<lparr>games := AList.update g gm3 (games (round_state g gm2 s2))\<rparr>"
  have e1: "r1 = (s1, [Answer MoveRecorded])"
    unfolding r1_def s1_def gm1_def using assms(2)
    by (simp add: handle_move_legal[OF assms(1)] is_player_def blocked_reason_plain)
  have g1: "map_of (games s1) g = Some gm1" by (simp add: s1_def)
  have f1: "is_player p2 gm1" "move_choice gm1 p2 = None" "blocked_reason gm1 p2 ''slam'' = None"
    using assms(2) by (simp_all add: gm1_def is_player_def blocked_reason_plain)
  have e2: "r2 = (fst (resolve_turn_sync g s2), Answer MoveRecorded # snd (resolve_turn_sync g s2))"
    unfolding r2_def e1 using assms(2)
    by (simp add: handle_move_legal[OF g1 f1] s2_def gm2_def) (simp add: gm1_def)
  have g2: "map_of (games s2) g = Some gm2" by (simp add: s2_def)
  have p2: "players gm2 = (p1, p2)" by (simp add: gm2_def gm1_def)
  have mc: "move_choice gm2 p1 = Some ''kick''" "move_choice gm2 p2 = Some ''slam''"
    using assms(2) by (simp_all add: gm2_def gm1_def)
  have nr: "\<not> capitalize_raises gm2"
    by (simp add: capitalize_raises_def p2 mc)
  have hp2: "hp gm2 p1 = 200" "hp gm2 p2 = 200"
    by (simp_all add: gm2_def gm1_def)
  have d: "dmg_to p1 p2 (Some ''kick'') (Some ''slam'') p1 = 25"
          "dmg_to p1 p2 (Some ''kick'') (Some ''slam'') p2 = 15"
    using assms(2) by (simp_all add: dmg_to_cases damage_table)
  have hp3: "hp (apply_round gm2) p1 = 175" "hp (apply_round gm2) p2 = 185"
    using assms(2) by (simp_all add: apply_round_hp[OF p2] mc hp2 d)
  have res: "resolve_turn_sync g s2 = (fst (ko_logic g gm2 (round_state g gm2 s2)),
               round_trace g gm2 @ snd (ko_logic g gm2 (round_state g gm2 s2)))"
    by (rule resolve_some[OF g2 nr])
  have ko: "ko_logic g gm2 (round_state g gm2 s2) =
              (s3, [Say (ToGroup g) NextRound, Prompt g (build_move_keyboard g s3)])"
    unfolding s3_def gm3_def
    by (rule ko_logic_next[OF p2 assms(2)]) (simp_all add: hp3)
  have tr: "round_trace g gm2 = [DeletePrompts g,
                   Say (ToGroup g) (Strike p1 (Some ''kick'') 15),
                   Say (ToGroup g) (HpLine p1 175),
                   Say (ToGroup g) (Strike p2 (Some ''slam'') 25),
                   Say (ToGroup g) (HpLine p2 185), SaveStats]"
    by (simp add: round_trace_def round_messages_def Let_def p2 mc hp2 d hype_def)
  have g3: "map_of (games s3) g = Some gm3" by (simp add: s3_def)
  have sp: "specials_left gm3 p1 = 4" "reversals_left gm3 p1 = 3"
    using assms(2)
    by (simp_all add: gm3_def apply_round_specials[OF p2] apply_round_reversals[OF p2] mc
          is_special_def) (simp_all add: gm2_def gm1_def)
  have kb: "build_move_keyboard g s3 =
              [''punch'', ''kick'', ''slam'', ''dropkick'', ''suplex'', ''rko'', ''reversal'']"
    using sp by (simp add: build_move_keyboard_def g3) (simp add: gm3_def p2)
  have fin: "r2 = (s3, Answer MoveRecorded # round_trace g gm2
                       @ [Say (ToGroup g) NextRound, Prompt g (build_move_keyboard g s3)])"
    by (simp add: e2 res ko)
  show "\<exists>gm. map_of (games (fst r2)) g = Some gm
           \<and> hp gm p1 = 175 \<and> hp gm p2 = 185
           \<and> move_choice gm p1 = None \<and> move_choice gm p2 = None"
    using g3 hp3 by (simp add: fin) (simp add: gm3_def)
  show "user_stats (fst r2) = user_stats s"
    by (simp add: fin s3_def s2_def s1_def round_stats_no_special p2 mc is_special_def)
  show "snd r2 = [Answer MoveRecorded, DeletePrompts g,
                   Say (ToGroup g) (Strike p1 (Some ''kick'') 15),
                   Say (ToGroup g) (HpLine p1 175),
                   Say (ToGroup g) (Strike p2 (Some ''slam'') 25),
                   Say (ToGroup g) (HpLine p2 185),
                   SaveStats, Say (ToGroup g) NextRound,
                   Prompt g [''punch'', ''kick'', ''slam'', ''dropkick'', ''suplex'',
                             ''rko'', ''reversal'']]"
    by (simp add: fin tr kb)
qed

text \<open>
  Claim C6, amended. For two fresh players at 200 hit points, a round in which player
  one chooses the medium strike \<open>kick\<close> (15) and player two the heavy strike \<open>slam\<close> (25)
  leaves player one at 175 and player two at 185: each takes the damage of the
  opponent's move. No record changes, the choices are unset again, and the next round
  is prompted with all seven moves. The base damage of the seven moves is 5, 15, 25,
  30, 45, 55 and 0.
\<close>

theorem medium_heavy_example:
  assumes "map_of (games s) g = Some (new_game p1 p2)" and "p1 \<noteq> p2"
  shows "(let r1 = webhook_receiver (MoveCb g ''kick'' p1) s;
              r2 = webhook_receiver (MoveCb g ''slam'' p2) (fst r1)
          in (\<exists>gm. map_of (games (fst r2)) g = Some gm
                \<and> hp gm p1 = 175 \<and> hp gm p2 = 185
                \<and> move_choice gm p1 = None \<and> move_choice gm p2 = None)
             \<and> user_stats (fst r2) = user_stats s
             \<and> snd r2 = [Answer MoveRecorded, DeletePrompts g,
                         Say (ToGroup g) (Strike p1 (Some ''kick'') 15),
                         Say (ToGroup g) (HpLine p1 175),
                         Say (ToGroup g) (Strike p2 (Some ''slam'') 25),
                         Say (ToGroup g) (HpLine p2 185),
                         SaveStats, Say (ToGroup g) NextRound,
                         Prompt g [''punch'', ''kick'', ''slam'', ''dropkick'', ''suplex'',
                                   ''rko'', ''reversal'']])
       \<and> map (\<lambda>m. damage_of (Some m))
             [''punch'', ''kick'', ''slam'', ''dropkick'', ''suplex'', ''rko'', ''reversal'']
           = [5, 15, 25, 30, 45, 55, 0]"
  using kick_slam_round[OF assms] by (simp add: Let_def damage_table)

theorem medium_heavy_example_witness:
  "snd (webhook_receiver (MoveCb ''g'' ''slam'' 2)
         (fst (webhook_receiver (MoveCb ''g'' ''kick'' 1)
                \<lparr>user_stats = [], lobbies = [], games = [(''g'', new_game 1 2)]\<rparr>)))
     = [Answer MoveRecorded, DeletePrompts ''g'',
        Say (ToGroup ''g'') (Strike 1 (Some ''kick'') 15),
        Say (ToGroup ''g'') (HpLine 1 175),
        Say (ToGroup ''g'') (Strike 2 (Some ''slam'') 25),
        Say (ToGroup ''g'') (HpLine 2 185),
        SaveStats, Say (ToGroup ''g'') NextRound,
        Prompt ''g'' [''punch'', ''kick'', ''slam'', ''dropkick'', ''suplex'', ''rko'', ''reversal'']]"
proof -
  let ?s = "\<lparr>user_stats = [], lobbies = [], games = [(''g'', new_game 1 2)]\<rparr>"
  have a: "map_of (games ?s) ''g'' = Some (new_game 1 2)" by simp
  have b: "(1::int) \<noteq> 2" by simp
  show ?thesis
    using medium_heavy_example[OF a b] by (simp add: Let_def)
qed

text \<open>
  The hit points after that round are (175, 185), not (185, 175).
\<close>

theorem medium_heavy_counterexample:
  "\<not> (hp (the (map_of (games (run [MoveCb ''g'' ''kick'' 1, MoveCb ''g'' ''slam'' 2]
               \<lparr>user_stats = [], lobbies = [], games = [(''g'', new_game 1 2)]\<rparr>)) ''g'')) 1 = 185
      \<and> hp (the (map_of (games (run [MoveCb ''g'' ''kick'' 1, MoveCb ''g'' ''slam'' 2]
               \<lparr>user_stats = [], lobbies = [], games = [(''g'', new_game 1 2)]\<rparr>)) ''g'')) 2 = 175)"
proof -
  let ?s = "\<lparr>user_stats = [], lobbies = [], games = [(''g'', new_game 1 2)]\<rparr>"
  have a: "map_of (games ?s) ''g'' = Some (new_game 1 2)" by simp
  have b: "(1::int) \<noteq> 2" by simp
  from kick_slam_round(1)[OF a b] obtain gm where
    "map_of (games (run [MoveCb ''g'' ''kick'' 1, MoveCb ''g'' ''slam'' 2] ?s)) ''g'' = Some gm"
    "hp gm 1 = 175" "hp gm 2 = 185"
    by auto
  then show ?thesis by simp
qed

section \<open>The invariant of the reachable states\<close>

subsection \<open>Pieces of the state\<close>

lemma game_inv_names_kept: "names_kept us us' \<Longrightarrow> game_inv us gm \<Longrightarrow> game_inv us' gm"
  by (simp add: game_inv_def registered_kept)

lemma state_inv_registered:
  assumes "state_inv s" and "\<And>u. registered (user_stats s) u \<Longrightarrow> registered us' u"
  shows "state_inv (s\<lparr>user_stats := us'\<rparr>)"
proof -
  have "game_inv (user_stats s) gm \<Longrightarrow> game_inv us' gm" for gm
    by (simp add: game_inv_def assms(2))
  then show ?thesis
    using assms by (simp add: state_inv_def list_all_iff split_beta)
qed

lemma state_inv_stats:
  assumes "state_inv s" and "names_kept (user_stats s) us'"
  shows "state_inv (s\<lparr>user_stats := us'\<rparr>)"
  using assms(1) by (rule state_inv_registered) (rule registered_kept[OF assms(2)])

lemma in_bounds_apply_round:
  assumes "in_bounds gm (fst (players gm))" and "in_bounds gm (snd (players gm))"
    and "in_bounds gm u"
  shows "in_bounds (apply_round gm) u"
proof -
  have h: "0 \<le> hp (apply_round gm) u \<and> hp (apply_round gm) u \<le> MAX_HP"
    using hp_apply_round_bounds[of gm u MAX_HP] assms by (simp add: in_bounds_def)
  have sp: "0 \<le> specials_left (apply_round gm) u
            \<and> specials_left (apply_round gm) u \<le> MAX_SPECIALS_PER_MATCH"
    using specials_left_apply_round[of gm u] assms(3) by (simp add: in_bounds_def)
  have rv: "0 \<le> reversals_left (apply_round gm) u
            \<and> reversals_left (apply_round gm) u \<le> MAX_REVERSALS_PER_MATCH"
    using reversals_left_apply_round[of gm u] assms(3) by (simp add: in_bounds_def)
  show ?thesis using h sp rv by (simp add: in_bounds_def)
qed

lemma game_inv_apply_round: "game_inv us gm \<Longrightarrow> game_inv us (apply_round gm)"
  using in_bounds_apply_round[of gm "fst (players gm)"]
    in_bounds_apply_round[of gm "snd (players gm)"]
  by (simp add: game_inv_def)

lemma game_inv_move_choice [simp]: "game_inv us (gm\<lparr>move_choice := mc\<rparr>) = game_inv us gm"
  by (simp add: game_inv_def in_bounds_def)

lemma in_bounds_new_game: "in_bounds (new_game p1 p2) p1" "in_bounds (new_game p1 p2) p2"
  by (simp_all add: in_bounds_def new_game_def MAX_HP_def MAX_SPECIALS_PER_MATCH_def
        MAX_REVERSALS_PER_MATCH_def)

lemma state_inv_gameD:
  "state_inv s \<Longrightarrow> map_of (games s) g = Some gm \<Longrightarrow> game_inv (user_stats s) gm"
  by (auto simp: state_inv_def dest: list_all_map_of)

lemma state_inv_lobbyD:
  "state_inv s \<Longrightarrow> map_of (lobbies s) g = Some l \<Longrightarrow> registered (user_stats s) (host l)"
  by (auto simp: state_inv_def dest: list_all_map_of)

lemma state_inv_update_game:
  "state_inv s \<Longrightarrow> game_inv (user_stats s) gm \<Longrightarrow>
   state_inv (s\<lparr>games := AList.update g gm (games s)\<rparr>)"
  by (simp add: state_inv_def list_all_update)

lemma state_inv_delete_game:
  "state_inv s \<Longrightarrow> state_inv (s\<lparr>games := AList.delete g (games s)\<rparr>)"
  by (simp add: state_inv_def list_all_delete)

lemma state_inv_update_lobby:
  "state_inv s \<Longrightarrow> registered (user_stats s) (host l) \<Longrightarrow>
   state_inv (s\<lparr>lobbies := AList.update g l (lobbies s)\<rparr>)"
  by (simp add: state_inv_def list_all_update)

lemma state_inv_delete_lobby:
  "state_inv s \<Longrightarrow> state_inv (s\<lparr>lobbies := AList.delete g (lobbies s)\<rparr>)"
  by (simp add: state_inv_def list_all_delete)

subsection \<open>Resolution\<close>

lemma state_inv_round_state:
  assumes "state_inv s" and "map_of (games s) g = Some gm"
  shows "state_inv (round_state g gm s)"
    and "game_inv (user_stats (round_state g gm s)) (apply_round gm)"
proof -
  have gi: "game_inv (user_stats s) (apply_round gm)"
    using state_inv_gameD[OF assms] by (rule game_inv_apply_round)
  have "state_inv ((s\<lparr>games := AList.update g (apply_round gm) (games s)\<rparr>)
                     \<lparr>user_stats := round_stats gm (user_stats s)\<rparr>)"
    by (rule state_inv_stats[OF state_inv_update_game[OF assms(1) gi]])
       (simp add: names_kept_round_stats)
  then show "state_inv (round_state g gm s)"
    by (simp add: round_state_def)
  show "game_inv (user_stats (round_state g gm s)) (apply_round gm)"
    using game_inv_names_kept[OF names_kept_round_stats gi] by simp
qed

lemma state_inv_ko_logic:
  assumes "state_inv s1" and "game_inv (user_stats s1) (apply_round gm)"
  shows "state_inv (fst (ko_logic g gm s1))"
proof -
  define p1 where "p1 = fst (players gm)"
  define p2 where "p2 = snd (players gm)"
  define usd where
    "usd = add_draw p2 (add_draw p1 (setdefault_user p2 (setdefault_user p1 (user_stats s1))))"
  define new1 where
    "new1 = max 0 (hp gm p1 - dmg_to p1 p2 (move_choice gm p1) (move_choice gm p2) p1)"
  define w where "w = (if new1 = 0 then p2 else p1)"
  define l where "l = (if new1 = 0 then p1 else p2)"
  define usw where "usw = settle_win w l (user_stats s1)"
  define gm' where
    "gm' = (apply_round gm)\<lparr>move_choice := (move_choice (apply_round gm))(p1 := None, p2 := None)\<rparr>"
  have r: "fst (ko_logic g gm s1) = (s1\<lparr>user_stats := usd\<rparr>)\<lparr>games := AList.delete g (games (s1\<lparr>user_stats := usd\<rparr>))\<rparr>
         \<or> fst (ko_logic g gm s1) = s1\<lparr>user_stats := usw\<rparr>
         \<or> fst (ko_logic g gm s1) = (s1\<lparr>user_stats := usw\<rparr>)\<lparr>games := AList.delete g (games (s1\<lparr>user_stats := usw\<rparr>))\<rparr>
         \<or> fst (ko_logic g gm s1) = s1\<lparr>games := AList.update g gm' (games s1)\<rparr>"
    unfolding usd_def usw_def w_def l_def gm'_def new1_def p1_def p2_def
    by (simp add: ko_logic_def Let_def fst_and_then)
  have kd: "state_inv (s1\<lparr>user_stats := usd\<rparr>)"
    unfolding usd_def by (rule state_inv_stats[OF assms(1) names_kept_draws])
  have kw: "state_inv (s1\<lparr>user_stats := usw\<rparr>)"
    unfolding usw_def by (rule state_inv_stats[OF assms(1) names_kept_settle_win])
  have nx: "state_inv (s1\<lparr>games := AList.update g gm' (games s1)\<rparr>)"
    by (rule state_inv_update_game[OF assms(1)]) (simp add: gm'_def assms(2))
  from r show ?thesis
  proof (elim disjE)
    assume e: "fst (ko_logic g gm s1) = (s1\<lparr>user_stats := usd\<rparr>)\<lparr>games := AList.delete g (games (s1\<lparr>user_stats := usd\<rparr>))\<rparr>"
    show ?thesis unfolding e by (rule state_inv_delete_game[OF kd])
  next
    assume e: "fst (ko_logic g gm s1) = s1\<lparr>user_stats := usw\<rparr>"
    show ?thesis unfolding e by (rule kw)
  next
    assume e: "fst (ko_logic g gm s1) = (s1\<lparr>user_stats := usw\<rparr>)\<lparr>games := AList.delete g (games (s1\<lparr>user_stats := usw\<rparr>))\<rparr>"
    show ?thesis unfolding e by (rule state_inv_delete_game[OF kw])
  next
    assume e: "fst (ko_logic g gm s1) = s1\<lparr>games := AList.update g gm' (games s1)\<rparr>"
    show ?thesis unfolding e by (rule nx)
  qed
qed

lemma state_inv_resolve:
  assumes "state_inv s"
  shows "state_inv (fst (resolve_turn_sync g s))"
proof (cases "map_of (games s) g")
  case None
  then show ?thesis using assms by (simp add: resolve_none)
next
  case (Some gm)
  show ?thesis
  proof (cases "capitalize_raises gm")
    case True
    then show ?thesis
      using state_inv_round_state(1)[OF assms Some] by (simp add: resolve_raises[OF Some])
  next
    case False
    show ?thesis
      using state_inv_ko_logic[OF state_inv_round_state[OF assms Some]]
      by (simp add: resolve_some[OF Some False])
  qed
qed

subsection \<open>The handlers\<close>

lemma state_inv_ensure_user: "state_inv s \<Longrightarrow> state_inv (fst (ensure_user u s))"
  using state_inv_stats[OF _ names_kept_ensure_user, of s u]
  by (auto simp: ensure_user_def)

lemma fst_register_name:
  "fst (register_name u text s) = s
   \<or> fst (register_name u text s) = s\<lparr>user_stats := user_stats (fst (register_name u text s))\<rparr>"
  by (simp add: register_name_def Let_def)

lemma state_inv_register_name: "state_inv s \<Longrightarrow> state_inv (fst (register_name u text s))"
  using fst_register_name[of u "text" s]
    state_inv_registered[of s "user_stats (fst (register_name u text s))"]
    registered_register_name[of s _ u "text"]
  by auto

lemma state_inv_private: "state_inv s \<Longrightarrow> state_inv (fst (handle_private u text s))"
  by (simp add: handle_private_def fst_and_then state_inv_ensure_user state_inv_register_name)

lemma state_inv_group: "state_inv s \<Longrightarrow> state_inv (fst (handle_group c u cmd s))"
  by (cases cmd)
     (auto simp: handle_group_def registered_def intro!: state_inv_update_lobby
        split: option.splits)

lemma state_inv_start_match:
  assumes "state_inv s" and "p1 \<noteq> p2"
    and "registered (user_stats s) p1" and "registered (user_stats s) p2"
  shows "state_inv (fst (start_match_sync g p1 p2 s))"
proof -
  have "game_inv (user_stats s) (new_game p1 p2)"
    using assms by (simp add: game_inv_def in_bounds_new_game)
  then show ?thesis
    using assms(1) by (simp add: start_match_sync_def fst_and_then state_inv_update_game)
qed

lemma state_inv_lobby:
  assumes "state_inv s"
  shows "state_inv (fst (handle_lobby act g h u s))"
proof (cases "map_of (lobbies s) g")
  case None
  then show ?thesis
    using assms by (simp add: handle_lobby_def state_inv_delete_lobby)
next
  case (Some l)
  have reg: "host l = h \<Longrightarrow> registered (user_stats s) h"
    using state_inv_lobbyD[OF assms Some] by simp
  have st: "host l = h \<Longrightarrow> u \<noteq> h \<Longrightarrow> registered (user_stats s) u \<Longrightarrow>
        state_inv (fst (start_match_sync g h u (s\<lparr>lobbies := AList.delete g (lobbies s)\<rparr>)))"
    using state_inv_start_match[OF state_inv_delete_lobby[OF assms], of h u g g] reg
    by simp
  show ?thesis
    using assms Some st
    by (cases act)
       (auto simp: handle_lobby_def state_inv_delete_lobby fst_and_then registered_def)
qed

lemma state_inv_move:
  assumes "state_inv s"
  shows "state_inv (fst (handle_move g move u s))"
proof (cases "map_of (games s) g")
  case None
  then show ?thesis using assms by (simp add: handle_move_def)
next
  case (Some gm)
  have up: "state_inv (s\<lparr>games := AList.update g (gm\<lparr>move_choice := mc\<rparr>) (games s)\<rparr>)" for mc
    using state_inv_update_game[OF assms, of "gm\<lparr>move_choice := mc\<rparr>" g]
      state_inv_gameD[OF assms Some]
    by simp
  show ?thesis
    using assms Some up state_inv_resolve[OF up]
    by (simp add: handle_move_def Let_def fst_and_then split: option.splits)
qed

lemma state_inv_settle:
  assumes "state_inv s"
  shows "state_inv (s\<lparr>user_stats := settle_win w l (user_stats s),
                      games := AList.delete g (games s)\<rparr>)"
proof -
  have "state_inv (s\<lparr>user_stats := settle_win w l (user_stats s)\<rparr>)"
    by (rule state_inv_stats[OF assms names_kept_settle_win])
  then have "state_inv ((s\<lparr>user_stats := settle_win w l (user_stats s)\<rparr>)
               \<lparr>games := AList.delete g (games (s\<lparr>user_stats := settle_win w l (user_stats s)\<rparr>))\<rparr>)"
    by (rule state_inv_delete_game)
  then show ?thesis by simp
qed

lemma state_inv_confirm_end:
  "state_inv s \<Longrightarrow> state_inv (fst (handle_confirm_end g choice u s))"
  by (simp add: handle_confirm_end_def Let_def state_inv_settle split: option.splits)

lemma state_inv_forfeit_yes: "state_inv s \<Longrightarrow> state_inv (fst (handle_forfeit_yes u s))"
  by (simp add: handle_forfeit_yes_def Let_def state_inv_settle split: option.splits prod.splits)

lemma state_inv_step: "state_inv s \<Longrightarrow> state_inv (fst (webhook_receiver e s))"
  by (cases e)
     (simp_all add: state_inv_private state_inv_group state_inv_lobby state_inv_move
        state_inv_confirm_end state_inv_forfeit_yes handle_forfeit_no_def)

lemma reachable_state_inv: "reachable s \<Longrightarrow> state_inv s"
proof (induction rule: reachable.induct)
  case (reachable_init s)
  then show ?case by (simp add: state_inv_def)
next
  case (reachable_step s e)
  then show ?case by (simp add: state_inv_step)
qed

lemma reachable_run: "reachable s \<Longrightarrow> reachable (run es s)"
  by (induction es arbitrary: s) (simp_all add: reachable_step)

section \<open>Resource bounds\<close>

lemma state_inv_bounds:
  assumes "state_inv s" and "map_of (games s) g = Some gm" and "is_player u gm"
  shows "0 \<le> hp gm u \<and> hp gm u \<le> 200
       \<and> 0 \<le> specials_left gm u \<and> specials_left gm u \<le> 4
       \<and> 0 \<le> reversals_left gm u \<and> reversals_left gm u \<le> 3"
  using state_inv_gameD[OF assms(1,2)] assms(3)
  by (auto simp: game_inv_def is_player_def in_bounds_def MAX_HP_def
        MAX_SPECIALS_PER_MATCH_def MAX_REVERSALS_PER_MATCH_def)

lemma start_match_game:
  "map_of (games (fst (start_match_sync g p1 p2 s))) g = Some (new_game p1 p2)"
  by (simp add: start_match_sync_def fst_and_then)

text \<open>
  Claim C2. In every reachable state, each of the two players of every active match has
  hit points in [0, 200], specials remaining in [0, 4] and reversals remaining in
  [0, 3]. The start of a match stores them as 200, 4 and 3 for both players, and the
  resolution of a round leaves every match with all three within their ranges.
\<close>

theorem resources_in_bounds:
  assumes "reachable s" and "map_of (games s) g = Some gm" and "is_player u gm"
  shows "(0 \<le> hp gm u \<and> hp gm u \<le> 200
          \<and> 0 \<le> specials_left gm u \<and> specials_left gm u \<le> 4
          \<and> 0 \<le> reversals_left gm u \<and> reversals_left gm u \<le> 3)
       \<and> (map_of (games (fst (start_match_sync c p1 p2 s))) c = Some (new_game p1 p2)
          \<and> hp (new_game p1 p2) p1 = 200 \<and> hp (new_game p1 p2) p2 = 200
          \<and> specials_left (new_game p1 p2) p1 = 4 \<and> specials_left (new_game p1 p2) p2 = 4
          \<and> reversals_left (new_game p1 p2) p1 = 3 \<and> reversals_left (new_game p1 p2) p2 = 3)
       \<and> (\<forall>c' gm' v. map_of (games (fst (resolve_turn_sync g s))) c' = Some gm' \<and> is_player v gm'
            \<longrightarrow> 0 \<le> hp gm' v \<and> hp gm' v \<le> 200
                \<and> 0 \<le> specials_left gm' v \<and> specials_left gm' v \<le> 4
                \<and> 0 \<le> reversals_left gm' v \<and> reversals_left gm' v \<le> 3)"
proof -
  have inv: "state_inv s"
    by (rule reachable_state_inv[OF assms(1)])
  have a: "0 \<le> hp gm u \<and> hp gm u \<le> 200
          \<and> 0 \<le> specials_left gm u \<and> specials_left gm u \<le> 4
          \<and> 0 \<le> reversals_left gm u \<and> reversals_left gm u \<le> 3"
    by (rule state_inv_bounds[OF inv assms(2,3)])
  have c: "\<forall>c' gm' v. map_of (games (fst (resolve_turn_sync g s))) c' = Some gm' \<and> is_player v gm'
            \<longrightarrow> 0 \<le> hp gm' v \<and> hp gm' v \<le> 200
                \<and> 0 \<le> specials_left gm' v \<and> specials_left gm' v \<le> 4
                \<and> 0 \<le> reversals_left gm' v \<and> reversals_left gm' v \<le> 3"
    using state_inv_bounds[OF state_inv_resolve[OF inv, of g]] by blast
  show ?thesis
    using a c by (simp add: start_match_game)
qed

lemma two_registered_join:
  "map_of (games (run [GroupMsg ''g'' 1 CmdStartGame, LobbyCb ActJoin ''g'' 1 2]
     \<lparr>user_stats = [(1, blank_stats\<lparr>name := Name ''Rocky''\<rparr>),
                     (2, blank_stats\<lparr>name := Name ''Apollo''\<rparr>)],
      lobbies = [], games = []\<rparr>)) ''g'' = Some (new_game 1 2)"
  by (simp add: handle_group_def handle_lobby_def get_name_def and_then_pair
        start_match_sync_def)

theorem resources_in_bounds_witness:
  "reachable (run [GroupMsg ''g'' 1 CmdStartGame, LobbyCb ActJoin ''g'' 1 2]
     \<lparr>user_stats = [(1, blank_stats\<lparr>name := Name ''Rocky''\<rparr>),
                     (2, blank_stats\<lparr>name := Name ''Apollo''\<rparr>)],
      lobbies = [], games = []\<rparr>)
   \<and> is_player 2 (new_game 1 2)
   \<and> 0 \<le> hp (new_game 1 2) 2 \<and> hp (new_game 1 2) 2 \<le> 200
   \<and> 0 \<le> specials_left (new_game 1 2) 2 \<and> specials_left (new_game 1 2) 2 \<le> 4
   \<and> 0 \<le> reversals_left (new_game 1 2) 2 \<and> reversals_left (new_game 1 2) 2 \<le> 3"
proof -
  let ?init = "\<lparr>user_stats = [(1, blank_stats\<lparr>name := Name ''Rocky''\<rparr>),
                             (2, blank_stats\<lparr>name := Name ''Apollo''\<rparr>)],
              lobbies = [], games = []\<rparr>"
  let ?s = "run [GroupMsg ''g'' 1 CmdStartGame, LobbyCb ActJoin ''g'' 1 2] ?init"
  have r: "reachable ?s"
    by (rule reachable_run) (simp add: reachable_init)
  have p: "is_player 2 (new_game 1 2)"
    by (simp add: is_player_def)
  show ?thesis
    using resources_in_bounds[OF r two_registered_join p] r p by simp
qed

section \<open>Legality of a move\<close>

lemma blocked_reason_iff:
  assumes "0 \<le> specials_left gm u" and "0 \<le> reversals_left gm u"
  shows "(blocked_reason gm u move \<noteq> None) \<longleftrightarrow>
           ((move = ''suplex'' \<or> move = ''rko'')
              \<and> (last_move gm u = Some ''suplex'' \<or> last_move gm u = Some ''rko''
                  \<or> specials_left gm u = 0))
           \<or> (move = ''reversal''
              \<and> (last_move gm u = Some ''reversal'' \<or> reversals_left gm u = 0))"
  using assms by (auto simp: blocked_reason_def is_special_def Let_def)

lemma is_blocked_resolve [simp]: "\<not> is_blocked (Answer MoveRecorded # e)"
  by (simp add: is_blocked_def)

lemma handle_move_is_blocked:
  assumes "map_of (games s) g = Some gm" and "is_player u gm" and "move_choice gm u = None"
  shows "is_blocked (snd (handle_move g move u s)) \<longleftrightarrow> blocked_reason gm u move \<noteq> None"
proof (cases "blocked_reason gm u move")
  case None
  then show ?thesis
    by (simp add: handle_move_legal[OF assms None])
next
  case (Some r)
  then show ?thesis
    by (simp add: handle_move_blocked[OF assms Some] is_blocked_def)
qed

lemma handle_move_blocked_state:
  assumes "map_of (games s) g = Some gm" and "is_player u gm" and "move_choice gm u = None"
    and "blocked_reason gm u move \<noteq> None"
  shows "fst (handle_move g move u s) = s"
  using assms handle_move_blocked[OF assms(1,2,3)] by auto

text \<open>
  Claim C3. For a participant of an active match with no pending choice, whose specials
  and reversals remaining are not negative, a submitted move is answered as blocked if
  and only if it is \<open>suplex\<close> or \<open>rko\<close> and the player's preceding move was \<open>suplex\<close> or
  \<open>rko\<close> or the player has no specials left, or it is \<open>reversal\<close> and the preceding move
  was \<open>reversal\<close> or no reversals are left. A blocked submission answers with the alert,
  the private notice and the public announcement, leaves the whole state as it was, and
  a later submission of the player is handled as if the blocked one had not been made.
\<close>

theorem move_blocked_iff:
  assumes "map_of (games s) g = Some gm" and "is_player u gm" and "move_choice gm u = None"
    and "0 \<le> specials_left gm u" and "0 \<le> reversals_left gm u"
  shows "(is_blocked (snd (handle_move g move u s)) \<longleftrightarrow>
            ((move = ''suplex'' \<or> move = ''rko'')
               \<and> (last_move gm u = Some ''suplex'' \<or> last_move gm u = Some ''rko''
                   \<or> specials_left gm u = 0))
            \<or> (move = ''reversal''
               \<and> (last_move gm u = Some ''reversal'' \<or> reversals_left gm u = 0)))
       \<and> (is_blocked (snd (handle_move g move u s)) \<longrightarrow>
            fst (handle_move g move u s) = s
            \<and> (\<exists>r. snd (handle_move g move u s) =
                     [Answer (Blocked r), Say (ToUser u) RestrictionDM,
                      Say (ToGroup g) (BlockedAnnounce u move)])
            \<and> handle_move g move' u (fst (handle_move g move u s)) = handle_move g move' u s)"
proof -
  have b: "is_blocked (snd (handle_move g move u s)) \<longleftrightarrow> blocked_reason gm u move \<noteq> None"
    by (rule handle_move_is_blocked[OF assms(1,2,3)])
  have st: "blocked_reason gm u move \<noteq> None \<Longrightarrow> fst (handle_move g move u s) = s"
    by (rule handle_move_blocked_state[OF assms(1,2,3)])
  have tr: "blocked_reason gm u move \<noteq> None \<Longrightarrow>
            \<exists>r. snd (handle_move g move u s) =
                     [Answer (Blocked r), Say (ToUser u) RestrictionDM,
                      Say (ToGroup g) (BlockedAnnounce u move)]"
    using handle_move_blocked[OF assms(1,2,3)] by auto
  show ?thesis
    using b st tr blocked_reason_iff[OF assms(4,5), of move] by auto
qed

theorem move_blocked_iff_witness:
  "is_blocked (snd (handle_move ''g'' ''rko'' 1
     \<lparr>user_stats = [], lobbies = [],
      games = [(''g'', (new_game 1 2)\<lparr>last_move := (\<lambda>_. None)(1 := Some ''suplex'')\<rparr>)]\<rparr>))
   \<and> fst (handle_move ''g'' ''rko'' 1
     \<lparr>user_stats = [], lobbies = [],
      games = [(''g'', (new_game 1 2)\<lparr>last_move := (\<lambda>_. None)(1 := Some ''suplex'')\<rparr>)]\<rparr>)
     = \<lparr>user_stats = [], lobbies = [],
        games = [(''g'', (new_game 1 2)\<lparr>last_move := (\<lambda>_. None)(1 := Some ''suplex'')\<rparr>)]\<rparr>"
proof -
  let ?gm = "(new_game 1 2)\<lparr>last_move := (\<lambda>_. None)(1 := Some ''suplex'')\<rparr>"
  let ?s = "\<lparr>user_stats = [], lobbies = [], games = [(''g'', ?gm)]\<rparr>"
  have a: "map_of (games ?s) ''g'' = Some ?gm" by simp
  have b: "is_player 1 ?gm" by (simp add: is_player_def)
  have c: "move_choice ?gm 1 = None" by simp
  have d: "0 \<le> specials_left ?gm 1" "0 \<le> reversals_left ?gm 1" by simp_all
  show ?thesis
    using move_blocked_iff[OF a b c d, of "''rko''"] by simp
qed

section \<open>Moves that are never blocked\<close>

lemma hype_no_exception: "LogException \<notin> set (hype m1 m2 [Say t n])"
  by (simp add: hype_def)

lemma round_trace_no_exception: "LogException \<notin> set (round_trace g gm)"
  by (simp add: round_trace_def round_messages_def Let_def hype_no_exception)

lemma ko_logic_no_exception:
  assumes "registered (user_stats s1) (fst (players gm))"
    and "registered (user_stats s1) (snd (players gm))"
  shows "LogException \<notin> set (snd (ko_logic g gm s1))"
proof -
  have "get_name (settle_win w l (user_stats s1)) v \<noteq> PyNone"
    if "registered (user_stats s1) v" for w l v
  proof -
    have "truthy_name (get_name (settle_win w l (user_stats s1)) v)"
      using registered_kept[OF names_kept_settle_win that] by (simp add: registered_def)
    then show ?thesis by (cases "get_name (settle_win w l (user_stats s1)) v") simp_all
  qed
  then show ?thesis
    using assms
    by (simp add: ko_logic_def Let_def snd_and_then send_round_prompt_def split: option.splits)
qed

lemma resolve_no_exception:
  assumes "state_inv s" and "map_of (games s) g = Some gm" and "\<not> capitalize_raises gm"
  shows "LogException \<notin> set (snd (resolve_turn_sync g s))"
proof -
  have gi: "game_inv (user_stats (round_state g gm s)) (apply_round gm)"
    by (rule state_inv_round_state(2)[OF assms(1,2)])
  then have "LogException \<notin> set (snd (ko_logic g gm (round_state g gm s)))"
    by (intro ko_logic_no_exception) (simp_all add: game_inv_def)
  then show ?thesis
    by (simp add: resolve_some[OF assms(2,3)] round_trace_no_exception)
qed

lemma handle_move_no_exception:
  assumes "state_inv s"
  shows "LogException \<notin> set (snd (handle_move g move u s))"
proof (cases "map_of (games s) g")
  case None
  then show ?thesis by (simp add: handle_move_def)
next
  case (Some gm)
  let ?gm = "gm\<lparr>move_choice := (move_choice gm)(u := Some move)\<rparr>"
  let ?s = "s\<lparr>games := AList.update g ?gm (games s)\<rparr>"
  have inv: "state_inv ?s"
    using state_inv_update_game[OF assms, of ?gm g] state_inv_gameD[OF assms Some] by simp
  have g: "map_of (games ?s) g = Some ?gm" by simp
  have "truthy (move_choice ?gm (fst (players ?gm))) \<Longrightarrow>
        truthy (move_choice ?gm (snd (players ?gm))) \<Longrightarrow>
        LogException \<notin> set (snd (resolve_turn_sync g ?s))"
    using resolve_no_exception[OF inv g] truthy_not_raises[of ?gm] by blast
  then show ?thesis
    using Some
    by (simp add: handle_move_def Let_def snd_and_then split: option.splits)
qed

text \<open>
  Claim C8. For a participant of an active match in a reachable state with no pending
  choice, a move string other than \<open>suplex\<close>, \<open>rko\<close> and \<open>reversal\<close>, known or not, is
  never blocked: it is stored as the player's pending choice and, when both choices are
  then non-empty, the round is resolved on that state at once. A move name outside the
  table deals 0 damage, and the handler raises no exception.
\<close>

theorem plain_move_recorded:
  assumes "reachable s" and "map_of (games s) g = Some gm" and "is_player u gm"
    and "move_choice gm u = None"
    and "move \<noteq> ''suplex''" and "move \<noteq> ''rko''" and "move \<noteq> ''reversal''"
  shows "\<not> is_blocked (snd (handle_move g move u s))
       \<and> handle_move g move u s =
           (if truthy (((move_choice gm)(u := Some move)) (fst (players gm)))
               \<and> truthy (((move_choice gm)(u := Some move)) (snd (players gm)))
            then (fst (resolve_turn_sync g
                    (s\<lparr>games := AList.update g
                         (gm\<lparr>move_choice := (move_choice gm)(u := Some move)\<rparr>) (games s)\<rparr>)),
                  Answer MoveRecorded # snd (resolve_turn_sync g
                    (s\<lparr>games := AList.update g
                         (gm\<lparr>move_choice := (move_choice gm)(u := Some move)\<rparr>) (games s)\<rparr>)))
            else (s\<lparr>games := AList.update g
                      (gm\<lparr>move_choice := (move_choice gm)(u := Some move)\<rparr>) (games s)\<rparr>,
                  [Answer MoveRecorded]))
       \<and> (map_of MOVES move = None \<longrightarrow> damage_of (Some move) = 0)
       \<and> LogException \<notin> set (snd (handle_move g move u s))"
proof -
  have b: "blocked_reason gm u move = None"
    by (rule blocked_reason_plain[OF assms(5,6,7)])
  have nb: "\<not> is_blocked (snd (handle_move g move u s))"
    by (simp add: handle_move_is_blocked[OF assms(2,3,4)] b)
  have ne: "LogException \<notin> set (snd (handle_move g move u s))"
    by (rule handle_move_no_exception[OF reachable_state_inv[OF assms(1)]])
  have d: "map_of MOVES move = None \<longrightarrow> damage_of (Some move) = 0"
    by (simp add: damage_of_def)
  show ?thesis
    using nb ne d handle_move_legal[OF assms(2,3,4) b] by simp
qed


theorem plain_move_recorded_witness:
  "reachable (run [GroupMsg ''g'' 1 CmdStartGame, LobbyCb ActJoin ''g'' 1 2]
     \<lparr>user_stats = [(1, blank_stats\<lparr>name := Name ''Rocky''\<rparr>),
                     (2, blank_stats\<lparr>name := Name ''Apollo''\<rparr>)],
      lobbies = [], games = []\<rparr>)
   \<and> \<not> is_blocked (snd (handle_move ''g'' ''headbutt'' 1
         (run [GroupMsg ''g'' 1 CmdStartGame, LobbyCb ActJoin ''g'' 1 2]
           \<lparr>user_stats = [(1, blank_stats\<lparr>name := Name ''Rocky''\<rparr>),
                           (2, blank_stats\<lparr>name := Name ''Apollo''\<rparr>)],
            lobbies = [], games = []\<rparr>)))
   \<and> snd (handle_move ''g'' ''headbutt'' 1
         (run [GroupMsg ''g'' 1 CmdStartGame, LobbyCb ActJoin ''g'' 1 2]
           \<lparr>user_stats = [(1, blank_stats\<lparr>name := Name ''Rocky''\<rparr>),
                           (2, blank_stats\<lparr>name := Name ''Apollo''\<rparr>)],
            lobbies = [], games = []\<rparr>)) = [Answer MoveRecorded]
   \<and> damage_of (Some ''headbutt'') = 0"
proof -
  let ?init = "\<lparr>user_stats = [(1, blank_stats\<lparr>name := Name ''Rocky''\<rparr>),
                             (2, blank_stats\<lparr>name := Name ''Apollo''\<rparr>)],
              lobbies = [], games = []\<rparr>"
  let ?s = "run [GroupMsg ''g'' 1 CmdStartGame, LobbyCb ActJoin ''g'' 1 2] ?init"
  have r: "reachable ?s"
    by (rule reachable_run) (simp add: reachable_init)
  have p: "is_player 1 (new_game 1 2)"
    by (simp add: is_player_def)
  have c: "move_choice (new_game 1 2) 1 = None"
    by simp
  have m: "''headbutt'' \<noteq> ''suplex''" "''headbutt'' \<noteq> ''rko''" "''headbutt'' \<noteq> ''reversal''"
    by simp_all
  have t: "map_of MOVES ''headbutt'' = None"
    by (simp add: MOVES_def)
  show ?thesis
    using plain_move_recorded[OF r two_registered_join p c m] r t by simp
qed

section \<open>When a round is resolved\<close>

lemma handle_move_already_chose:
  "map_of (games s) g = Some gm \<Longrightarrow> is_player u gm \<Longrightarrow> move_choice gm u \<noteq> None \<Longrightarrow>
   handle_move g move u s = (s, [Answer AlreadyChose])"
  by (simp add: handle_move_def)

text \<open>
  The terminal check of a resolved round between two distinct players: a double
  knockout counts a draw for both, saves and removes the match; a single knockout counts
  a win for the survivor and a loss for the other, saves and removes the match;
  otherwise both choices are unset and the next round is prompted.
\<close>

lemma terminal_check_draw:
  assumes "players gm = (p1, p2)" and "p1 \<noteq> p2"
    and "hp (apply_round gm) p1 = 0" and "hp (apply_round gm) p2 = 0"
  shows "map_of (games (fst (ko_logic g gm s1))) g = None"
    and "counter draws (user_stats (fst (ko_logic g gm s1))) p1 = counter draws (user_stats s1) p1 + 1"
    and "counter draws (user_stats (fst (ko_logic g gm s1))) p2 = counter draws (user_stats s1) p2 + 1"
    and "snd (ko_logic g gm s1) = [SaveStats, Say (ToGroup g) DoubleKO]"
  by (simp_all add: ko_logic_draw[OF assms] draw_counters[OF assms(2)])

lemma terminal_check_win:
  assumes "players gm = (p1, p2)" and "p1 \<noteq> p2"
    and "(hp (apply_round gm) p1 = 0) \<noteq> (hp (apply_round gm) p2 = 0)"
    and "w = (if hp (apply_round gm) p1 = 0 then p2 else p1)"
    and "l = (if hp (apply_round gm) p1 = 0 then p1 else p2)"
    and "registered (user_stats s1) w"
  shows "map_of (games (fst (ko_logic g gm s1))) g = None"
    and "counter wins (user_stats (fst (ko_logic g gm s1))) w = counter wins (user_stats s1) w + 1"
    and "counter losses (user_stats (fst (ko_logic g gm s1))) l = counter losses (user_stats s1) l + 1"
    and "snd (ko_logic g gm s1) = [SaveStats, Say (ToGroup g) (WinsByKO w)]"
proof -
  have wl: "w \<noteq> l" using assms(2,4,5) by auto
  have "truthy_name (get_name (settle_win w l (user_stats s1)) w)"
    using registered_kept[OF names_kept_settle_win assms(6)] by (simp add: registered_def)
  then have n: "get_name (settle_win w l (user_stats s1)) w \<noteq> PyNone"
    by (cases "get_name (settle_win w l (user_stats s1)) w") simp_all
  have k: "ko_logic g gm s1 =
             (s1\<lparr>user_stats := settle_win w l (user_stats s1),
                 games := AList.delete g (games s1)\<rparr>,
              [SaveStats, Say (ToGroup g) (WinsByKO w)])"
    using ko_logic_win[OF assms(1,2,3,4,5)] n by simp
  show "map_of (games (fst (ko_logic g gm s1))) g = None"
    and "counter wins (user_stats (fst (ko_logic g gm s1))) w = counter wins (user_stats s1) w + 1"
    and "counter losses (user_stats (fst (ko_logic g gm s1))) l = counter losses (user_stats s1) l + 1"
    and "snd (ko_logic g gm s1) = [SaveStats, Say (ToGroup g) (WinsByKO w)]"
    by (simp_all add: k settle_win_counters[OF wl])
qed

lemma terminal_check_next:
  assumes "players gm = (p1, p2)" and "p1 \<noteq> p2"
    and "hp (apply_round gm) p1 \<noteq> 0" and "hp (apply_round gm) p2 \<noteq> 0"
  shows "\<exists>gm'. map_of (games (fst (ko_logic g gm s1))) g = Some gm'
           \<and> move_choice gm' p1 = None \<and> move_choice gm' p2 = None
           \<and> hp gm' = hp (apply_round gm)"
    and "user_stats (fst (ko_logic g gm s1)) = user_stats s1"
    and "\<exists>kb. snd (ko_logic g gm s1) = [Say (ToGroup g) NextRound, Prompt g kb]"
  by (simp_all add: ko_logic_next[OF assms])

lemma second_choice_resolves:
  assumes "map_of (games s) g = Some gm" and "is_player u gm" and "move_choice gm u = None"
    and "blocked_reason gm u move = None" and "move \<noteq> []"
    and "players gm = (p1, p2)" and "p1 \<noteq> p2"
    and "truthy (move_choice gm (if u = p1 then p2 else p1))"
  shows "fst (handle_move g move u s) =
           fst (resolve_turn_sync g (s\<lparr>games := AList.update g
                  (gm\<lparr>move_choice := (move_choice gm)(u := Some move)\<rparr>) (games s)\<rparr>))"
  using assms by (auto simp: handle_move_legal[OF assms(1,2,3,4)] is_player_def)

lemma first_choice_waits:
  assumes "map_of (games s) g = Some gm" and "is_player u gm" and "move_choice gm u = None"
    and "blocked_reason gm u move = None"
    and "players gm = (p1, p2)" and "p1 \<noteq> p2"
    and "move_choice gm (if u = p1 then p2 else p1) = None"
  shows "handle_move g move u s =
           (s\<lparr>games := AList.update g
                 (gm\<lparr>move_choice := (move_choice gm)(u := Some move)\<rparr>) (games s)\<rparr>,
            [Answer MoveRecorded])"
  using assms by (auto simp: handle_move_legal[OF assms(1,2,3,4)] is_player_def)

lemma empty_move_round:
  assumes "map_of (games s) g = Some (new_game p1 p2)" and "p1 \<noteq> p2"
  defines "s1 \<equiv> fst (webhook_receiver (MoveCb g [] p1) s)"
  defines "s2 \<equiv> fst (webhook_receiver (MoveCb g ''punch'' p2) s1)"
  shows "snd (webhook_receiver (MoveCb g ''punch'' p2) s1) = [Answer MoveRecorded]"
    and "map_of (games s2) g =
           Some ((new_game p1 p2)\<lparr>move_choice := (\<lambda>_. None)(p1 := Some [], p2 := Some ''punch'')\<rparr>)"
    and "u = p1 \<or> u = p2 \<Longrightarrow> webhook_receiver (MoveCb g move u) s2 = (s2, [Answer AlreadyChose])"
proof -
  let ?gm1 = "(new_game p1 p2)\<lparr>move_choice := (\<lambda>_. None)(p1 := Some [])\<rparr>"
  let ?gm2 = "(new_game p1 p2)\<lparr>move_choice := (\<lambda>_. None)(p1 := Some [], p2 := Some ''punch'')\<rparr>"
  have e1: "webhook_receiver (MoveCb g [] p1) s
              = (s\<lparr>games := AList.update g ?gm1 (games s)\<rparr>, [Answer MoveRecorded])"
    using first_choice_waits[OF assms(1), of p1 "[]" p1 p2] assms(2)
    by (simp add: is_player_def blocked_reason_plain)
  then have a1: "map_of (games s1) g = Some ?gm1"
    by (simp add: s1_def)
  have e2: "webhook_receiver (MoveCb g ''punch'' p2) s1
              = (s1\<lparr>games := AList.update g ?gm2 (games s1)\<rparr>, [Answer MoveRecorded])"
    using handle_move_legal[OF a1, of p2 "''punch''"] assms(2)
    by (simp add: is_player_def blocked_reason_plain)
  then show "snd (webhook_receiver (MoveCb g ''punch'' p2) s1) = [Answer MoveRecorded]"
    by simp
  show a2: "map_of (games s2) g = Some ?gm2"
    using e2 by (simp add: s2_def)
  show "webhook_receiver (MoveCb g move u) s2 = (s2, [Answer AlreadyChose])" if "u = p1 \<or> u = p2"
    using that handle_move_already_chose[OF a2, of u move] assms(2)
    by (auto simp: is_player_def)
qed

text \<open>
  Claim C4 fails on an empty move string. Players 1 and 2 are registered, 1 opens a
  lobby, 2 joins, player 1 submits the empty move and player 2 submits \<open>punch\<close>. Both
  choices are then set, so a further submission of either player is refused as already
  chosen and leaves the state as it is, yet the second submission did not resolve the
  round: its only call is
  the acknowledgement, and the hit points are still 200 for both. Line 663 tests the
  stored choice with \<open>is not None\<close>, line 691 by truth value, and the empty string is
  not \<open>None\<close> but false.
\<close>

theorem empty_move_stalls_round:
  "snd (webhook_receiver (MoveCb ''g'' ''punch'' 2)
         (run [GroupMsg ''g'' 1 CmdStartGame, LobbyCb ActJoin ''g'' 1 2, MoveCb ''g'' [] 1]
            \<lparr>user_stats = [(1, blank_stats\<lparr>name := Name ''Rocky''\<rparr>),
                            (2, blank_stats\<lparr>name := Name ''Apollo''\<rparr>)],
             lobbies = [], games = []\<rparr>))
     = [Answer MoveRecorded]
   \<and> map_of (games
        (run [GroupMsg ''g'' 1 CmdStartGame, LobbyCb ActJoin ''g'' 1 2,
              MoveCb ''g'' [] 1, MoveCb ''g'' ''punch'' 2]
            \<lparr>user_stats = [(1, blank_stats\<lparr>name := Name ''Rocky''\<rparr>),
                            (2, blank_stats\<lparr>name := Name ''Apollo''\<rparr>)],
             lobbies = [], games = []\<rparr>)) ''g''
     = Some ((new_game 1 2)\<lparr>move_choice := (\<lambda>_. None)(1 := Some [], 2 := Some ''punch'')\<rparr>)
   \<and> snd (webhook_receiver (MoveCb ''g'' ''punch'' 1)
          (run [GroupMsg ''g'' 1 CmdStartGame, LobbyCb ActJoin ''g'' 1 2,
                MoveCb ''g'' [] 1, MoveCb ''g'' ''punch'' 2]
            \<lparr>user_stats = [(1, blank_stats\<lparr>name := Name ''Rocky''\<rparr>),
                            (2, blank_stats\<lparr>name := Name ''Apollo''\<rparr>)],
             lobbies = [], games = []\<rparr>))
     = [Answer AlreadyChose]
   \<and> fst (webhook_receiver (MoveCb ''g'' ''punch'' 1)
          (run [GroupMsg ''g'' 1 CmdStartGame, LobbyCb ActJoin ''g'' 1 2,
                MoveCb ''g'' [] 1, MoveCb ''g'' ''punch'' 2]
            \<lparr>user_stats = [(1, blank_stats\<lparr>name := Name ''Rocky''\<rparr>),
                            (2, blank_stats\<lparr>name := Name ''Apollo''\<rparr>)],
             lobbies = [], games = []\<rparr>))
     = (run [GroupMsg ''g'' 1 CmdStartGame, LobbyCb ActJoin ''g'' 1 2,
                MoveCb ''g'' [] 1, MoveCb ''g'' ''punch'' 2]
            \<lparr>user_stats = [(1, blank_stats\<lparr>name := Name ''Rocky''\<rparr>),
                            (2, blank_stats\<lparr>name := Name ''Apollo''\<rparr>)],
             lobbies = [], games = []\<rparr>)
   \<and> snd (webhook_receiver (MoveCb ''g'' ''kick'' 2)
          (run [GroupMsg ''g'' 1 CmdStartGame, LobbyCb ActJoin ''g'' 1 2,
                MoveCb ''g'' [] 1, MoveCb ''g'' ''punch'' 2]
            \<lparr>user_stats = [(1, blank_stats\<lparr>name := Name ''Rocky''\<rparr>),
                            (2, blank_stats\<lparr>name := Name ''Apollo''\<rparr>)],
             lobbies = [], games = []\<rparr>))
     = [Answer AlreadyChose]
   \<and> fst (webhook_receiver (MoveCb ''g'' ''kick'' 2)
          (run [GroupMsg ''g'' 1 CmdStartGame, LobbyCb ActJoin ''g'' 1 2,
                MoveCb ''g'' [] 1, MoveCb ''g'' ''punch'' 2]
            \<lparr>user_stats = [(1, blank_stats\<lparr>name := Name ''Rocky''\<rparr>),
                            (2, blank_stats\<lparr>name := Name ''Apollo''\<rparr>)],
             lobbies = [], games = []\<rparr>))
     = (run [GroupMsg ''g'' 1 CmdStartGame, LobbyCb ActJoin ''g'' 1 2,
                MoveCb ''g'' [] 1, MoveCb ''g'' ''punch'' 2]
            \<lparr>user_stats = [(1, blank_stats\<lparr>name := Name ''Rocky''\<rparr>),
                            (2, blank_stats\<lparr>name := Name ''Apollo''\<rparr>)],
             lobbies = [], games = []\<rparr>)"
proof -
  let ?init = "\<lparr>user_stats = [(1, blank_stats\<lparr>name := Name ''Rocky''\<rparr>),
                             (2, blank_stats\<lparr>name := Name ''Apollo''\<rparr>)],
              lobbies = [], games = []\<rparr>"
  let ?s = "run [GroupMsg ''g'' 1 CmdStartGame, LobbyCb ActJoin ''g'' 1 2] ?init"
  have b: "(1::int) \<noteq> 2" by simp
  have r1: "run [GroupMsg ''g'' 1 CmdStartGame, LobbyCb ActJoin ''g'' 1 2, MoveCb ''g'' [] 1] ?init
              = fst (webhook_receiver (MoveCb ''g'' [] 1) ?s)"
    by simp
  have r2: "run [GroupMsg ''g'' 1 CmdStartGame, LobbyCb ActJoin ''g'' 1 2,
                 MoveCb ''g'' [] 1, MoveCb ''g'' ''punch'' 2] ?init
              = fst (webhook_receiver (MoveCb ''g'' ''punch'' 2)
                  (fst (webhook_receiver (MoveCb ''g'' [] 1) ?s)))"
    by simp
  show ?thesis
    unfolding r1 r2
    using empty_move_round(1,2)[OF two_registered_join b]
      empty_move_round(3)[OF two_registered_join b, of 1 "''punch''"]
      empty_move_round(3)[OF two_registered_join b, of 2 "''kick''"]
    by simp
qed

section \<open>Ending a match voluntarily\<close>

lemma confirm_end_yes:
  assumes "map_of (games s) g = Some gm" and "is_player u gm"
  shows "handle_confirm_end g ''yes'' u s =
           (s\<lparr>user_stats := settle_win (if fst (players gm) = u then snd (players gm)
                                           else fst (players gm)) u (user_stats s),
               games := AList.delete g (games s)\<rparr>,
            [SaveStats,
             Say (ToGroup g) (EndedByPlayer u (if fst (players gm) = u then snd (players gm)
                                               else fst (players gm))),
             Answer MatchEndedAck, Edit MatchEndedEdit])"
  using assms by (simp add: handle_confirm_end_def Let_def)

lemma confirm_end_no:
  "choice \<noteq> ''yes'' \<Longrightarrow> fst (handle_confirm_end g choice u s) = s"
  by (simp add: handle_confirm_end_def Let_def split: option.splits)

lemma forfeit_yes_found:
  assumes "find (\<lambda>(c, m). is_player u m) (games s) = Some (g, gm)"
  shows "handle_forfeit_yes u s =
           (s\<lparr>user_stats := settle_win (if u = fst (players gm) then snd (players gm)
                                           else fst (players gm)) u (user_stats s),
               games := AList.delete g (games s)\<rparr>,
            [DeletePrompts g,
             Say (ToGroup g) (Forfeited u (if u = fst (players gm) then snd (players gm)
                                           else fst (players gm))),
             SaveStats, Edit ForfeitEdit, Answer ForfeitProcessed])"
  using assms by (simp add: handle_forfeit_yes_def Let_def)

lemma forfeit_yes_none:
  "find (\<lambda>(c, m). is_player u m) (games s) = None \<Longrightarrow>
   handle_forfeit_yes u s = (s, [Edit NotInAMatch, Answer ForfeitProcessed])"
  by (simp add: handle_forfeit_yes_def)

lemma end_match_request:
  assumes "map_of (games s) g = Some gm" and "is_player r gm"
  shows "handle_group g r CmdEndMatch s = (s, [DeletePrompts g, Say (ToGroup g) ConfirmEndPrompt])"
  using assms by (simp add: handle_group_def)

lemma forfeit_other_arenas:
  assumes "find (\<lambda>(c, m). is_player u m) (games s) = Some (g, gm)" and "c \<noteq> g"
  shows "map_of (games (fst (handle_forfeit_yes u s))) c = map_of (games s) c"
  using assms by (simp add: forfeit_yes_found)

text \<open>
  Claim C5, amended. For an active match in arena \<open>g\<close> between two distinct players, at
  any hit points: the \<open>/endmatch\<close> request of a participant changes nothing; when a
  participant \<open>u\<close>, the requester or the opponent, then confirms with \<open>yes\<close>, \<open>u\<close> is
  charged a loss and the other participant a win, the records are saved and the match of
  \<open>g\<close> is removed; any other answer leaves the state as it was. When \<open>u\<close> confirms a
  forfeit and the match of \<open>g\<close> is the first match in the order of \<open>games\<close> that has \<open>u\<close>
  as a player, \<open>u\<close> is charged a loss and the opponent a win, the records are saved, the
  match of \<open>g\<close> is removed and the matches of all other arenas stay as they are;
  declining the forfeit leaves the state as it was.
\<close>

theorem voluntary_end:
  assumes "map_of (games s) g = Some gm" and "players gm = (p1, p2)" and "p1 \<noteq> p2"
    and "r = p1 \<or> r = p2" and "u = p1 \<or> u = p2"
  shows "fst (webhook_receiver (GroupMsg g r CmdEndMatch) s) = s
       \<and> (map_of (games (fst (webhook_receiver (ConfirmEndCb g ''yes'' u)
                 (fst (webhook_receiver (GroupMsg g r CmdEndMatch) s))))) g = None
          \<and> counter losses (user_stats (fst (webhook_receiver (ConfirmEndCb g ''yes'' u)
                 (fst (webhook_receiver (GroupMsg g r CmdEndMatch) s))))) u
              = counter losses (user_stats s) u + 1
          \<and> counter wins (user_stats (fst (webhook_receiver (ConfirmEndCb g ''yes'' u)
                 (fst (webhook_receiver (GroupMsg g r CmdEndMatch) s)))))
                (if u = p1 then p2 else p1)
              = counter wins (user_stats s) (if u = p1 then p2 else p1) + 1
          \<and> SaveStats \<in> set (snd (webhook_receiver (ConfirmEndCb g ''yes'' u)
                 (fst (webhook_receiver (GroupMsg g r CmdEndMatch) s)))))
       \<and> (choice \<noteq> ''yes'' \<longrightarrow>
            fst (webhook_receiver (ConfirmEndCb g choice u)
                 (fst (webhook_receiver (GroupMsg g r CmdEndMatch) s))) = s)
       \<and> (find (\<lambda>(c, m). is_player u m) (games s) = Some (g, gm) \<longrightarrow>
            map_of (games (fst (webhook_receiver (ForfeitYesCb u) s))) g = None
            \<and> counter losses (user_stats (fst (webhook_receiver (ForfeitYesCb u) s))) u
                = counter losses (user_stats s) u + 1
            \<and> counter wins (user_stats (fst (webhook_receiver (ForfeitYesCb u) s)))
                  (if u = p1 then p2 else p1)
                = counter wins (user_stats s) (if u = p1 then p2 else p1) + 1
            \<and> SaveStats \<in> set (snd (webhook_receiver (ForfeitYesCb u) s))
            \<and> (\<forall>c. c \<noteq> g \<longrightarrow>
                 map_of (games (fst (webhook_receiver (ForfeitYesCb u) s))) c = map_of (games s) c))
       \<and> fst (webhook_receiver (ForfeitNoCb u) s) = s"
proof -
  have pl: "is_player u gm" "is_player r gm"
    using assms(2,4,5) by (auto simp: is_player_def)
  have rq: "fst (webhook_receiver (GroupMsg g r CmdEndMatch) s) = s"
    by (simp add: end_match_request[OF assms(1) pl(2)])
  have ne: "(if u = p1 then p2 else p1) \<noteq> u"
    using assms(3,5) by auto
  have o1: "(if fst (players gm) = u then snd (players gm) else fst (players gm))
              = (if u = p1 then p2 else p1)"
    using assms(2,3,5) by auto
  have o2: "(if u = fst (players gm) then snd (players gm) else fst (players gm))
              = (if u = p1 then p2 else p1)"
    using assms(2,3,5) by auto
  have a: "map_of (games (fst (handle_confirm_end g ''yes'' u s))) g = None
          \<and> counter losses (user_stats (fst (handle_confirm_end g ''yes'' u s))) u
              = counter losses (user_stats s) u + 1
          \<and> counter wins (user_stats (fst (handle_confirm_end g ''yes'' u s)))
                (if u = p1 then p2 else p1)
              = counter wins (user_stats s) (if u = p1 then p2 else p1) + 1
          \<and> SaveStats \<in> set (snd (handle_confirm_end g ''yes'' u s))"
    unfolding confirm_end_yes[OF assms(1) pl(1)] o1
    using settle_win_counters(1,2)[OF ne, of "user_stats s"] by simp
  have b: "find (\<lambda>(c, m). is_player u m) (games s) = Some (g, gm) \<Longrightarrow>
            map_of (games (fst (handle_forfeit_yes u s))) g = None
            \<and> counter losses (user_stats (fst (handle_forfeit_yes u s))) u
                = counter losses (user_stats s) u + 1
            \<and> counter wins (user_stats (fst (handle_forfeit_yes u s)))
                  (if u = p1 then p2 else p1)
                = counter wins (user_stats s) (if u = p1 then p2 else p1) + 1
            \<and> SaveStats \<in> set (snd (handle_forfeit_yes u s))"
    unfolding o2[symmetric]
    using settle_win_counters(1,2)[OF ne, of "user_stats s"]
    by (simp add: forfeit_yes_found o2)
  have c: "find (\<lambda>(c, m). is_player u m) (games s) = Some (g, gm) \<Longrightarrow>
            \<forall>c. c \<noteq> g \<longrightarrow> map_of (games (fst (handle_forfeit_yes u s))) c = map_of (games s) c"
    using forfeit_other_arenas[of u s g gm] by blast
  show ?thesis
    unfolding rq
    using a b c confirm_end_no[of choice g u s] rq by (simp add: handle_forfeit_no_def)
qed

theorem voluntary_end_witness:
  "counter losses (user_stats (fst (webhook_receiver (ForfeitYesCb 1)
      \<lparr>user_stats = [(1, blank_stats\<lparr>name := Name ''Rocky''\<rparr>),
                      (2, blank_stats\<lparr>name := Name ''Apollo''\<rparr>)],
       lobbies = [],
       games = [(''g'', (new_game 1 2)\<lparr>hp := (\<lambda>_. 0)(1 := 120, 2 := 80)\<rparr>)]\<rparr>))) 1 = 1
   \<and> counter wins (user_stats (fst (webhook_receiver (ForfeitYesCb 1)
      \<lparr>user_stats = [(1, blank_stats\<lparr>name := Name ''Rocky''\<rparr>),
                      (2, blank_stats\<lparr>name := Name ''Apollo''\<rparr>)],
       lobbies = [],
       games = [(''g'', (new_game 1 2)\<lparr>hp := (\<lambda>_. 0)(1 := 120, 2 := 80)\<rparr>)]\<rparr>))) 2 = 1
   \<and> map_of (games (fst (webhook_receiver (ForfeitYesCb 1)
      \<lparr>user_stats = [(1, blank_stats\<lparr>name := Name ''Rocky''\<rparr>),
                      (2, blank_stats\<lparr>name := Name ''Apollo''\<rparr>)],
       lobbies = [],
       games = [(''g'', (new_game 1 2)\<lparr>hp := (\<lambda>_. 0)(1 := 120, 2 := 80)\<rparr>)]\<rparr>))) ''g'' = None
   \<and> counter losses (user_stats (fst (webhook_receiver (ConfirmEndCb ''g'' ''yes'' 1)
        (fst (webhook_receiver (GroupMsg ''g'' 2 CmdEndMatch)
      \<lparr>user_stats = [(1, blank_stats\<lparr>name := Name ''Rocky''\<rparr>),
                      (2, blank_stats\<lparr>name := Name ''Apollo''\<rparr>)],
       lobbies = [],
       games = [(''g'', (new_game 1 2)\<lparr>hp := (\<lambda>_. 0)(1 := 120, 2 := 80)\<rparr>)]\<rparr>))))) 1 = 1"
proof -
  let ?gm = "(new_game 1 2)\<lparr>hp := (\<lambda>_. 0)(1 := 120, 2 := 80)\<rparr>"
  let ?st = "\<lparr>user_stats = [(1, blank_stats\<lparr>name := Name ''Rocky''\<rparr>),
                            (2, blank_stats\<lparr>name := Name ''Apollo''\<rparr>)],
             lobbies = [], games = [(''g'', ?gm)]\<rparr>"
  have a: "map_of (games ?st) ''g'' = Some ?gm" by simp
  have b: "players ?gm = (1, 2)" by simp
  have c: "(1::int) \<noteq> 2" by simp
  have d: "(2::int) = 1 \<or> (2::int) = 2" "(1::int) = 1 \<or> (1::int) = 2" by simp_all
  have f: "find (\<lambda>(c, m). is_player 1 m) (games ?st) = Some (''g'', ?gm)"
    by (simp add: is_player_def)
  have z: "counter losses (user_stats ?st) 1 = 0" "counter wins (user_stats ?st) 2 = 0"
    by (simp_all add: counter_def blank_stats_def)
  note t = voluntary_end[OF a b c d, of "''no''"]
  have t1: "counter losses (user_stats (fst (webhook_receiver (ConfirmEndCb ''g'' ''yes'' 1)
              (fst (webhook_receiver (GroupMsg ''g'' 2 CmdEndMatch) ?st))))) 1
            = counter losses (user_stats ?st) 1 + 1"
    by (rule t[THEN conjunct2, THEN conjunct1, THEN conjunct2, THEN conjunct1])
  have t2: "map_of (games (fst (webhook_receiver (ForfeitYesCb 1) ?st))) ''g'' = None
            \<and> counter losses (user_stats (fst (webhook_receiver (ForfeitYesCb 1) ?st))) 1
                = counter losses (user_stats ?st) 1 + 1
            \<and> counter wins (user_stats (fst (webhook_receiver (ForfeitYesCb 1) ?st))) 2
                = counter wins (user_stats ?st) 2 + 1"
    using t[THEN conjunct2, THEN conjunct2, THEN conjunct2, THEN conjunct1] f by simp
  show ?thesis
    using t1 t2 unfolding z by simp
qed

text \<open>
  The claim as stated fails twice. Player 1 opens a lobby, player 2 joins, player 1
  requests the end of the match and player 2 confirms: the requester, player 1, has a
  win and no loss. And player 1, in a match against 2 in arena \<open>a\<close> and in one against
  3 in arena \<open>b\<close>, confirms a forfeit: the match of \<open>b\<close> is still active.
\<close>

theorem voluntary_end_counterexample:
  "counter wins (user_stats (run [GroupMsg ''g'' 1 CmdStartGame, LobbyCb ActJoin ''g'' 1 2,
                       GroupMsg ''g'' 1 CmdEndMatch, ConfirmEndCb ''g'' ''yes'' 2]
      \<lparr>user_stats = [(1, blank_stats\<lparr>name := Name ''Rocky''\<rparr>),
                      (2, blank_stats\<lparr>name := Name ''Apollo''\<rparr>)],
       lobbies = [], games = []\<rparr>)) 1 = 1
   \<and> counter losses (user_stats (run [GroupMsg ''g'' 1 CmdStartGame, LobbyCb ActJoin ''g'' 1 2,
                       GroupMsg ''g'' 1 CmdEndMatch, ConfirmEndCb ''g'' ''yes'' 2]
      \<lparr>user_stats = [(1, blank_stats\<lparr>name := Name ''Rocky''\<rparr>),
                      (2, blank_stats\<lparr>name := Name ''Apollo''\<rparr>)],
       lobbies = [], games = []\<rparr>)) 1 = 0
   \<and> map_of (games (run [GroupMsg ''a'' 1 CmdStartGame, LobbyCb ActJoin ''a'' 1 2,
                       GroupMsg ''b'' 1 CmdStartGame, LobbyCb ActJoin ''b'' 1 3]
      \<lparr>user_stats = [(1, blank_stats\<lparr>name := Name ''Rocky''\<rparr>),
                      (2, blank_stats\<lparr>name := Name ''Apollo''\<rparr>),
                      (3, blank_stats\<lparr>name := Name ''Clubber''\<rparr>)],
       lobbies = [], games = []\<rparr>)) ''b'' = Some (new_game 1 3)
   \<and> is_player 1 (new_game 1 3)
   \<and> map_of (games (run [GroupMsg ''a'' 1 CmdStartGame, LobbyCb ActJoin ''a'' 1 2,
                       GroupMsg ''b'' 1 CmdStartGame, LobbyCb ActJoin ''b'' 1 3,
                       ForfeitYesCb 1]
      \<lparr>user_stats = [(1, blank_stats\<lparr>name := Name ''Rocky''\<rparr>),
                      (2, blank_stats\<lparr>name := Name ''Apollo''\<rparr>),
                      (3, blank_stats\<lparr>name := Name ''Clubber''\<rparr>)],
       lobbies = [], games = []\<rparr>)) ''b'' = Some (new_game 1 3)"
  by (simp add: handle_group_def handle_lobby_def get_name_def and_then_pair
        start_match_sync_def handle_forfeit_yes_def handle_confirm_end_def is_player_def
        settle_win_def add_win_def add_loss_def setdefault_user_def counter_def
        blank_stats_def)

section \<open>A stale lobby button\<close>

text \<open>
  Claim C9. A join or cancel callback whose host id is not the host of the lobby that
  is open in the arena removes that lobby, whoever pressed the button: the answer is
  that the lobby no longer exists, and the arena has no lobby afterwards.
\<close>

theorem stale_lobby_callback:
  assumes "map_of (lobbies s) g = Some l" and "host l \<noteq> h"
  shows "handle_lobby act g h u s =
           (s\<lparr>lobbies := AList.delete g (lobbies s)\<rparr>, [Answer LobbyGone, SaveStats])
       \<and> map_of (lobbies (fst (handle_lobby act g h u s))) g = None"
  using assms by (simp add: handle_lobby_def)

theorem stale_lobby_callback_witness:
  "handle_lobby ActJoin ''g'' 5 9
     \<lparr>user_stats = [], lobbies = [(''g'', \<lparr>host = 7, lobby_players = [7]\<rparr>)], games = []\<rparr>
   = (\<lparr>user_stats = [], lobbies = [], games = []\<rparr>, [Answer LobbyGone, SaveStats])"
proof -
  let ?st = "\<lparr>user_stats = [], lobbies = [(''g'', \<lparr>host = 7, lobby_players = [7]\<rparr>)],
             games = []\<rparr>"
  have a: "map_of (lobbies ?st) ''g'' = Some \<lparr>host = 7, lobby_players = [7]\<rparr>" by simp
  have b: "host \<lparr>host = 7, lobby_players = [7]\<rparr> \<noteq> (5::int)" by simp
  show ?thesis
    using stale_lobby_callback[OF a b, of ActJoin 9] by simp
qed

section \<open>The frame of a forfeit\<close>

text \<open>
  Claim C10. A confirmed forfeit settles at most one match. If no match has the user as
  a player, the state is unchanged. Otherwise the match settled is the first one in the
  order of \<open>games\<close> that has the user as a player: only its arena's entry is removed
  from \<open>games\<close>, every other arena keeps its match, the lobbies are unchanged, the loss
  and the win are booked once, and the record of every user other than the forfeiter
  and that match's opponent is unchanged.
\<close>

theorem forfeit_frame:
  "(find (\<lambda>(c, m). is_player u m) (games s) = None \<longrightarrow> fst (handle_forfeit_yes u s) = s)
   \<and> (\<forall>g gm. find (\<lambda>(c, m). is_player u m) (games s) = Some (g, gm) \<longrightarrow>
         (\<exists>i < length (games s). games s ! i = (g, gm)
             \<and> (\<forall>j < i. \<not> is_player u (snd (games s ! j))))
         \<and> games (fst (handle_forfeit_yes u s)) = AList.delete g (games s)
         \<and> (\<forall>c. c \<noteq> g \<longrightarrow> map_of (games (fst (handle_forfeit_yes u s))) c = map_of (games s) c)
         \<and> lobbies (fst (handle_forfeit_yes u s)) = lobbies s
         \<and> user_stats (fst (handle_forfeit_yes u s))
             = settle_win (if u = fst (players gm) then snd (players gm) else fst (players gm))
                 u (user_stats s)
         \<and> (\<forall>v. v \<noteq> u \<and> v \<noteq> (if u = fst (players gm) then snd (players gm)
                                  else fst (players gm))
               \<longrightarrow> map_of (user_stats (fst (handle_forfeit_yes u s))) v = map_of (user_stats s) v))"
proof -
  have first: "\<exists>i < length (games s). games s ! i = (g, gm)
             \<and> (\<forall>j < i. \<not> is_player u (snd (games s ! j)))"
    if "find (\<lambda>(c, m). is_player u m) (games s) = Some (g, gm)" for g gm
    using that by (auto simp: find_Some_iff split_beta)
  show ?thesis
    using first by (auto simp: forfeit_yes_found forfeit_yes_none settle_win_others)
qed

theorem forfeit_frame_witness:
  "games (fst (handle_forfeit_yes 1
      \<lparr>user_stats = [(1, blank_stats\<lparr>name := Name ''Rocky''\<rparr>),
                      (2, blank_stats\<lparr>name := Name ''Apollo''\<rparr>),
                      (3, blank_stats\<lparr>name := Name ''Clubber''\<rparr>)],
       lobbies = [(''c'', \<lparr>host = 3, lobby_players = [3]\<rparr>)],
       games = [(''a'', new_game 1 2), (''b'', new_game 1 3)]\<rparr>))
     = [(''b'', new_game 1 3)]
   \<and> lobbies (fst (handle_forfeit_yes 1
      \<lparr>user_stats = [(1, blank_stats\<lparr>name := Name ''Rocky''\<rparr>),
                      (2, blank_stats\<lparr>name := Name ''Apollo''\<rparr>),
                      (3, blank_stats\<lparr>name := Name ''Clubber''\<rparr>)],
       lobbies = [(''c'', \<lparr>host = 3, lobby_players = [3]\<rparr>)],
       games = [(''a'', new_game 1 2), (''b'', new_game 1 3)]\<rparr>))
     = [(''c'', \<lparr>host = 3, lobby_players = [3]\<rparr>)]
   \<and> map_of (user_stats (fst (handle_forfeit_yes 1
      \<lparr>user_stats = [(1, blank_stats\<lparr>name := Name ''Rocky''\<rparr>),
                      (2, blank_stats\<lparr>name := Name ''Apollo''\<rparr>),
                      (3, blank_stats\<lparr>name := Name ''Clubber''\<rparr>)],
       lobbies = [(''c'', \<lparr>host = 3, lobby_players = [3]\<rparr>)],
       games = [(''a'', new_game 1 2), (''b'', new_game 1 3)]\<rparr>))) 3
     = Some (blank_stats\<lparr>name := Name ''Clubber''\<rparr>)"
proof -
  let ?st = "\<lparr>user_stats = [(1, blank_stats\<lparr>name := Name ''Rocky''\<rparr>),
                            (2, blank_stats\<lparr>name := Name ''Apollo''\<rparr>),
                            (3, blank_stats\<lparr>name := Name ''Clubber''\<rparr>)],
             lobbies = [(''c'', \<lparr>host = 3, lobby_players = [3]\<rparr>)],
             games = [(''a'', new_game 1 2), (''b'', new_game 1 3)]\<rparr>"
  have f: "find (\<lambda>(c, m). is_player 1 m) (games ?st) = Some (''a'', new_game 1 2)"
    by (simp add: is_player_def)
  note fr = forfeit_frame[of 1 ?st, THEN conjunct2, rule_format, OF f]
  have g: "games (fst (handle_forfeit_yes 1 ?st)) = AList.delete ''a'' (games ?st)"
    by (rule fr[THEN conjunct2, THEN conjunct1])
  have l: "lobbies (fst (handle_forfeit_yes 1 ?st)) = lobbies ?st"
    by (rule fr[THEN conjunct2, THEN conjunct2, THEN conjunct2, THEN conjunct1])
  have "map_of (user_stats (fst (handle_forfeit_yes 1 ?st))) 3 = map_of (user_stats ?st) 3"
    by (rule fr[THEN conjunct2, THEN conjunct2, THEN conjunct2, THEN conjunct2,
          THEN conjunct2, rule_format]) simp
  then have u: "map_of (user_stats (fst (handle_forfeit_yes 1 ?st))) 3
                  = Some (blank_stats\<lparr>name := Name ''Clubber''\<rparr>)"
    by simp
  have d: "AList.delete ''a'' (games ?st) = [(''b'', new_game 1 3)]"
    by simp
  show ?thesis
    unfolding g l u d by simp
qed

section \<open>Registration\<close>













lemma latin1_texts:
  "strip [CHR 0xA0] = []"
  "strip [CHR 0xA0, CHR ''B'', CHR ''o'', CHR ''b'', CHR 0x85] = ''Bob''"
  "lower [CHR 0xC9, CHR ''C''] = lower [CHR 0xE9, CHR ''c'']"
  "lower [CHR 0xD7] = [CHR 0xD7]"
  by code_simp+




end
